theory Spec2Isabelle
  imports Main "HOL-Library.Multiset"
begin

section \<open>Data model (types.ts)\<close>

text \<open>
  Timestamps (\<open>Date\<close> values and what \<open>new Date(x).getTime()\<close> and \<open>Date.now()\<close>
  return) are epoch milliseconds, an \<open>int\<close>. Optional fields are \<open>option\<close>s.  The
  \<open>tier\<close> fields are kept as the strings the JSON holds, since the code compares them
  with the literal \<open>'premium'\<close> only.  Field names that occur in several interfaces
  carry a prefix.
\<close>

record ThoughtRecord =
  th_sessionId :: string
  thought :: string
  thoughtNumber :: int
  totalThoughts :: int
  branchId :: "string option"
  isRevision :: "bool option"
  revisesThought :: "int option"
  th_timestamp :: int

datatype TaskStatus = Pending | InProgress | TaskCompleted

record TaskCommit =
  tk_sessionId :: string
  taskId :: string
  taskTitle :: string
  description :: "string option"
  completedAtThought :: int
  tk_status :: TaskStatus
  tk_createdAt :: int
  completedAt :: "int option"

datatype SessionStatus = Active | Completed | Finalized

datatype Outcome = OutcomeCompleted | OutcomeAbandoned | OutcomeDeferred

record Session =
  session_id :: string
  createdAt :: int
  updatedAt :: int
  status :: SessionStatus
  outcome :: "Outcome option"
  thoughtCount :: int
  taskCount :: int
  tenantId :: "string option"
  tier :: "string option"
  agentSummary :: "string option"
  autoFinalized :: "bool option"

record SessionContext =
  session :: Session
  thoughts :: "ThoughtRecord list"
  tasks :: "TaskCommit list"

record DocumentationEntry =
  doc_sessionId :: string
  generatedAt :: int
  summary :: string
  doc_thoughtCount :: int
  doc_taskCount :: int
  branches :: "string list"
  content :: string
  executiveSummary :: "string option"
  problemStatement :: "string option"
  approach :: "string option"
  doc_outcome :: "string option"
  keyInsights :: "string option"
  tags :: "string list option"

datatype EventType =
  SessionThought | SessionTaskCompleted | SessionFinalized | SessionIdleTimeout

record EventPayload =
  pl_outcome :: "Outcome option"
  pl_agentSummary :: "string option"
  pl_thoughtCount :: "int option"
  pl_taskCount :: "int option"
  pl_tier :: "string option"
  retryCount :: "int option"
  idleMinutes :: "int option"

record DevPatternEvent =
  ev_type :: EventType
  sessionId :: string
  ev_tenantId :: "string option"
  ev_timestamp :: int
  payload :: EventPayload

record DeadLetterEntry =
  dl_event :: DevPatternEvent
  dl_error :: string
  failedAt :: int
  dl_retryCount :: int

record ParsedBatchDoc =
  p_sessionId :: string
  p_content :: string
  p_executiveSummary :: string
  p_problemStatement :: string
  p_approach :: string
  p_outcome :: string
  p_keyInsights :: string
  p_tags :: "string list"

section \<open>Configuration (config.ts)\<close>

record Config =
  dataPath :: string
  redisUrl :: string
  anthropicApiKey :: string
  basicModel :: string
  premiumModel :: string
  idleTimeoutMinutes :: int
  batchSize :: int
  batchWindowSeconds :: int
  maxRetries :: int
  retryDelays :: "int list"
  healthPort :: int
  nodeEnv :: string

text \<open>
  The process environment.  A string variable is \<open>None\<close> when unset; an integer
  variable is given as what \<open>parseInt(value, 10)\<close> yields, \<open>None\<close> standing for unset,
  empty or not a number (the three cases in which \<open>getEnvIntOrDefault\<close> returns the
  default).
\<close>

record Env =
  DATA_PATH :: "string option"
  REDIS_URL :: "string option"
  ANTHROPIC_API_KEY :: "string option"
  BASIC_MODEL :: "string option"
  PREMIUM_MODEL :: "string option"
  IDLE_TIMEOUT_MINUTES :: "int option"
  BATCH_SIZE :: "int option"
  BATCH_WINDOW_SECONDS :: "int option"
  MAX_RETRIES :: "int option"
  HEALTH_PORT :: "int option"
  NODE_ENV :: "string option"

datatype error =
    ConfigError string
  | SessionNotFound string
  | GenerationFailed string


definition getEnvOrThrow :: "string \<Rightarrow> string option \<Rightarrow> error + string" where
  "getEnvOrThrow key v =
     (case v of None \<Rightarrow> Inl (ConfigError key)
      | Some s \<Rightarrow> if s = [] then Inl (ConfigError key) else Inr s)"

definition getEnvOrDefault :: "string option \<Rightarrow> string \<Rightarrow> string" where
  "getEnvOrDefault v d = (case v of None \<Rightarrow> d | Some s \<Rightarrow> if s = [] then d else s)"

definition getEnvIntOrDefault :: "int option \<Rightarrow> int \<Rightarrow> int" where
  "getEnvIntOrDefault v d = (case v of None \<Rightarrow> d | Some n \<Rightarrow> n)"

definition loadConfig :: "Env \<Rightarrow> error + Config" where
  "loadConfig env =
     (case getEnvOrThrow ''ANTHROPIC_API_KEY'' (ANTHROPIC_API_KEY env) of
        Inl e \<Rightarrow> Inl e
      | Inr key \<Rightarrow> Inr \<lparr>
          dataPath = getEnvOrDefault (DATA_PATH env) ''./data'',
          redisUrl = getEnvOrDefault (REDIS_URL env) ''redis://localhost:6379'',
          anthropicApiKey = key,
          basicModel = getEnvOrDefault (BASIC_MODEL env) ''claude-3-5-haiku-20241022'',
          premiumModel = getEnvOrDefault (PREMIUM_MODEL env) ''claude-3-5-sonnet-20241022'',
          idleTimeoutMinutes = getEnvIntOrDefault (IDLE_TIMEOUT_MINUTES env) 10,
          batchSize = getEnvIntOrDefault (BATCH_SIZE env) 5,
          batchWindowSeconds = getEnvIntOrDefault (BATCH_WINDOW_SECONDS env) 30,
          maxRetries = getEnvIntOrDefault (MAX_RETRIES env) 3,
          retryDelays = [5000, 30000, 120000],
          healthPort = getEnvIntOrDefault (HEALTH_PORT env) 3002,
          nodeEnv = getEnvOrDefault (NODE_ENV env) ''development'' \<rparr>)"

section \<open>JavaScript containers and strings\<close>

text \<open>
  A JavaScript \<open>Map\<close> is an association list in insertion order with distinct keys:
  \<open>set\<close> on a present key replaces the value in place, on a new key it appends.
\<close>

fun mapSet :: "'k \<Rightarrow> 'v \<Rightarrow> ('k \<times> 'v) list \<Rightarrow> ('k \<times> 'v) list" where
  "mapSet k v [] = [(k, v)]"
| "mapSet k v ((k', v') # m) =
     (if k' = k then (k, v) # m else (k', v') # mapSet k v m)"

definition mapGet :: "('k \<times> 'v) list \<Rightarrow> 'k \<Rightarrow> 'v option" where
  "mapGet m k = map_of m k"

definition mapDelete :: "'k \<Rightarrow> ('k \<times> 'v) list \<Rightarrow> ('k \<times> 'v) list" where
  "mapDelete k m = filter (\<lambda>kv. fst kv \<noteq> k) m"

text \<open>\<open>Array.prototype.slice(0, end)\<close>: a negative \<open>end\<close> counts from the end.\<close>

definition slice0 :: "int \<Rightarrow> 'a list \<Rightarrow> 'a list" where
  "slice0 e xs =
     (if 0 \<le> e then take (nat e) xs else take (length xs - nat (- e)) xs)"

text \<open>\<open>slice(i, j)\<close> for indices that are not negative.\<close>

definition slice :: "nat \<Rightarrow> nat \<Rightarrow> 'a list \<Rightarrow> 'a list" where
  "slice i j xs = take (j - i) (drop i xs)"

text \<open>\<open>[...new Set(xs)]\<close>: the first occurrence of each element, in order.\<close>

fun uniqueFirst :: "'a list \<Rightarrow> 'a list" where
  "uniqueFirst [] = []"
| "uniqueFirst (x # xs) = x # filter (\<lambda>y. y \<noteq> x) (uniqueFirst xs)"

text \<open>
  Strings are lists of code units below 256.  \<open>isSpace\<close> is the class \<open>\s\<close> there (tab,
  line feed, vertical tab, form feed, carriage return, space, no-break space), which
  is also what \<open>trim\<close> strips.
\<close>

definition isSpace :: "char \<Rightarrow> bool" where
  "isSpace c \<longleftrightarrow>
     c = CHR 0x09 \<or> c = CHR 0x0A \<or> c = CHR 0x0B \<or> c = CHR 0x0C \<or> c = CHR 0x0D
     \<or> c = CHR 0x20 \<or> c = CHR 0xA0"

definition trim :: "string \<Rightarrow> string" where
  "trim s = rev (dropWhile isSpace (rev (dropWhile isSpace s)))"

fun startsWith :: "string \<Rightarrow> string \<Rightarrow> bool" where
  "startsWith [] t = True"
| "startsWith (p # ps) [] = False"
| "startsWith (p # ps) (c # cs) = (p = c \<and> startsWith ps cs)"

text \<open>
  Matching under the \<open>i\<close> flag compares canonicalised code units.  The patterns of
  this program are ASCII, and a code unit from 128 on never canonicalises to an
  ASCII one, so folding the ASCII letters is all that matters.
\<close>

definition canon :: "char \<Rightarrow> char" where
  "canon c =
     (let n = (of_char c :: nat) in if 97 \<le> n \<and> n \<le> 122 then char_of (n - 32) else c)"

fun startsWithCI :: "string \<Rightarrow> string \<Rightarrow> bool" where
  "startsWithCI [] t = True"
| "startsWithCI (p # ps) [] = False"
| "startsWithCI (p # ps) (c # cs) = (canon p = canon c \<and> startsWithCI ps cs)"

text \<open>\<open>split(',')\<close> on one separator character.\<close>

fun splitOn :: "char \<Rightarrow> string \<Rightarrow> string list" where
  "splitOn d [] = [[]]"
| "splitOn d (c # cs) =
     (if c = d then [] # splitOn d cs
      else (case splitOn d cs of [] \<Rightarrow> [[c]] | x # xs \<Rightarrow> (c # x) # xs))"

text \<open>Decimal rendering of a count, as template literals do.\<close>

fun showDigits :: "nat \<Rightarrow> nat \<Rightarrow> string" where
  "showDigits 0 n = []"
| "showDigits (Suc f) n =
     (if n < 10 then [char_of (48 + n)]
      else showDigits f (n div 10) @ [char_of (48 + n mod 10)])"

definition showNat :: "nat \<Rightarrow> string" where
  "showNat n = showDigits (Suc n) n"

section \<open>Batch response parsing (prompts/batch-session.ts)\<close>

text \<open>
  \<open>extractSection\<close> runs the regular expression
  \<^verbatim>\<open>## NAME\s*([\s\S]*?)(?=## |$)\<close> with the \<open>i\<close> flag: the leftmost place where
  \<open>## NAME\<close> matches regardless of case, then all white space, then the shortest text
  up to the three characters \<open>## \<close> or the end of the string; the result is trimmed.
\<close>

fun afterFirstCI :: "string \<Rightarrow> string \<Rightarrow> string option" where
  "afterFirstCI pat [] = (if pat = [] then Some [] else None)"
| "afterFirstCI pat (c # cs) =
     (if startsWithCI pat (c # cs) then Some (drop (length pat) (c # cs))
      else afterFirstCI pat cs)"

fun untilMarker :: "string \<Rightarrow> string \<Rightarrow> string" where
  "untilMarker m [] = []"
| "untilMarker m (c # cs) = (if startsWithCI m (c # cs) then [] else c # untilMarker m cs)"

definition extractSection :: "string \<Rightarrow> string \<Rightarrow> string" where
  "extractSection cont sectionName =
     (case afterFirstCI (''## '' @ sectionName) cont of
        None \<Rightarrow> []
      | Some rest \<Rightarrow> trim (untilMarker ''## '' (dropWhile isSpace rest)))"

definition extractTags :: "string \<Rightarrow> string list" where
  "extractTags cont =
     (let tagsSection = extractSection cont ''Tags''
      in if tagsSection = [] then []
         else filter (\<lambda>t. length t > 0) (map trim (splitOn CHR '','' tagsSection)))"

text \<open>
  The session pattern
  \<^verbatim>\<open>===SESSION_START:\s*(\S+)\s*===([\s\S]*?)===SESSION_END===\<close> (flag \<open>g\<close>, case
  sensitive).  \<open>findEnd\<close> is the lazy body followed by the end marker; \<open>tryIds\<close> is the
  greedy \<open>\S+\<close> giving characters back one at a time; \<open>matchHere\<close> is one attempt at a
  fixed start position and \<open>execSession\<close> the leftmost match, returning the id, the
  body and the text after the match (where the next \<open>exec\<close> resumes).
\<close>

definition SESSION_START :: string where
  "SESSION_START = ''===SESSION_START:''"

definition SESSION_END :: string where
  "SESSION_END = ''===SESSION_END===''"

fun findEnd :: "string \<Rightarrow> (string \<times> string) option" where
  "findEnd [] = None"
| "findEnd (c # cs) =
     (if startsWith SESSION_END (c # cs) then Some ([], drop (length SESSION_END) (c # cs))
      else (case findEnd cs of None \<Rightarrow> None | Some (b, r) \<Rightarrow> Some (c # b, r)))"

fun tryIds :: "nat \<Rightarrow> string \<Rightarrow> (string \<times> string \<times> string) option" where
  "tryIds 0 t = None"
| "tryIds (Suc k) t =
     (let after = dropWhile isSpace (drop (Suc k) t)
      in if startsWith ''==='' after
         then (case findEnd (drop 3 after) of
                 Some (b, r) \<Rightarrow> Some (take (Suc k) t, b, r)
               | None \<Rightarrow> tryIds k t)
         else tryIds k t)"

definition matchHere :: "string \<Rightarrow> (string \<times> string \<times> string) option" where
  "matchHere s =
     (if startsWith SESSION_START s
      then (let t = dropWhile isSpace (drop (length SESSION_START) s)
            in tryIds (length (takeWhile (\<lambda>c. \<not> isSpace c) t)) t)
      else None)"

fun execSession :: "string \<Rightarrow> (string \<times> string \<times> string) option" where
  "execSession [] = None"
| "execSession (c # cs) =
     (case matchHere (c # cs) of Some m \<Rightarrow> Some m | None \<Rightarrow> execSession cs)"

definition mkParsed :: "string \<Rightarrow> string \<Rightarrow> ParsedBatchDoc" where
  "mkParsed i cont = \<lparr>
     p_sessionId = i,
     p_content = cont,
     p_executiveSummary = extractSection cont ''Executive Summary'',
     p_problemStatement = extractSection cont ''Problem Statement'',
     p_approach = extractSection cont ''Approach'',
     p_outcome = extractSection cont ''Outcome'',
     p_keyInsights = extractSection cont ''Key Insights'',
     p_tags = extractTags cont \<rparr>"

lemma findEnd_shorter: "findEnd s = Some (b, r) \<Longrightarrow> length r < length s"
proof (induction s arbitrary: b r)
  case Nil
  then show ?case by simp
next
  case (Cons c cs)
  show ?case
  proof (cases "startsWith SESSION_END (c # cs)")
    case True
    with Cons.prems show ?thesis by (auto simp: SESSION_END_def)
  next
    case False
    with Cons.prems obtain b' where "findEnd cs = Some (b', r)"
      by (auto split: option.splits)
    from Cons.IH [OF this] show ?thesis by simp
  qed
qed

lemma tryIds_shorter: "tryIds k t = Some (i, b, r) \<Longrightarrow> length r < length t"
proof (induction k)
  case 0
  then show ?case by simp
next
  case (Suc k)
  let ?after = "dropWhile isSpace (drop (Suc k) t)"
  have le: "length ?after \<le> length t"
    by (rule order_trans [OF length_dropWhile_le]) simp
  show ?case
  proof (cases "startsWith ''==='' ?after")
    case False
    with Suc show ?thesis by (simp add: Let_def)
  next
    case True
    show ?thesis
    proof (cases "findEnd (drop 3 ?after)")
      case None
      with True Suc show ?thesis by (simp add: Let_def)
    next
      case (Some br)
      with True Suc.prems have "findEnd (drop 3 ?after) = Some (b, r)"
        by (cases br) (simp add: Let_def)
      from findEnd_shorter [OF this] le show ?thesis by simp
    qed
  qed
qed

lemma matchHere_shorter: "matchHere s = Some (i, b, r) \<Longrightarrow> length r < length s"
proof -
  assume m: "matchHere s = Some (i, b, r)"
  let ?t = "dropWhile isSpace (drop (length SESSION_START) s)"
  from m have "tryIds (length (takeWhile (\<lambda>c. \<not> isSpace c) ?t)) ?t = Some (i, b, r)"
    by (simp add: matchHere_def Let_def split: if_splits)
  from tryIds_shorter [OF this] have "length r < length ?t" .
  also have "length ?t \<le> length s"
    by (rule order_trans [OF length_dropWhile_le]) simp
  finally show ?thesis .
qed

lemma execSession_shorter: "execSession s = Some (i, b, r) \<Longrightarrow> length r < length s"
proof (induction s)
  case Nil
  then show ?case by simp
next
  case (Cons c cs)
  show ?case
  proof (cases "matchHere (c # cs)")
    case None
    with Cons show ?thesis by simp
  next
    case (Some m)
    with Cons.prems have "matchHere (c # cs) = Some (i, b, r)" by simp
    from matchHere_shorter [OF this] show ?thesis .
  qed
qed

text \<open>
  The \<open>while\<close> loop of \<open>parseBatchResponse\<close>: each match stores one entry under its id
  and the search resumes after the match.  The \<open>sessions\<close> argument is passed along as
  the source does.
\<close>

function parseLoop ::
  "string \<Rightarrow> (string \<times> ParsedBatchDoc) list \<Rightarrow> (string \<times> ParsedBatchDoc) list" where
  "parseLoop response docs =
     (case execSession response of
        None \<Rightarrow> docs
      | Some (sessId, body, rest) \<Rightarrow>
          parseLoop rest (mapSet sessId (mkParsed sessId (trim body)) docs))"
  by pat_completeness auto
termination
  by (relation "measure (\<lambda>(response, docs). length response)")
     (auto dest: execSession_shorter)

declare parseLoop.simps [simp del]

definition parseBatchResponse ::
  "string \<Rightarrow> SessionContext list \<Rightarrow> (string \<times> ParsedBatchDoc) list" where
  "parseBatchResponse response sessions = parseLoop response []"

section \<open>The world the components act on\<close>

text \<open>
  The template functions that render a prompt are pure, so a prompt is kept as the
  arguments it is rendered from.
\<close>

datatype Prompt =
    BatchPrompt "SessionContext list"
  | SinglePrompt SessionContext
  | StagePrompt "ThoughtRecord list" nat nat
  | SynthesisPrompt "string list" "TaskCommit list" Session

text \<open>
  \<open>calls\<close> records, in order, every entry into the two generation paths
  (\<open>BatchProcessor.queueSession\<close>, \<open>Summarizer.generateDocumentation\<close>) and every
  request sent to the generation client (\<open>anthropic.messages.create\<close> with its model,
  \<open>max_tokens\<close> and prompt).
\<close>

datatype Call =
    QueueSession string
  | GenerateDocumentation string string
  | MessagesCreate string nat Prompt

text \<open>
  What the generation client answers: the call throws, or the first content block is
  a text block, or it is a block of another type.  The client may answer anything,
  depending on all that was called so far: it is a function of the call record up to
  and including the request.
\<close>

datatype LlmResponse = ApiError string | TextBlock string | OtherBlock

type_synonym Llm = "Call list \<Rightarrow> LlmResponse"

text \<open>
  The state: the data directory (\<open>session.json\<close> by directory in \<open>readdir\<close> order,
  \<open>thoughts.json\<close>, \<open>tasks.json\<close> and \<open>documentation.json\<close> by directory), the batch
  processor's pending map and timer, the call record, the Redis sorted set
  \<open>devpattern:retry_queue\<close> (member and score), the Redis list
  \<open>devpattern:dead_letter\<close>, the worker's counter and the events published on
  \<open>devpattern:events\<close>.  Each operation runs as one step at the time \<open>now\<close>; failures
  of the file system and of Redis are outside the model.
\<close>

record World =
  sessionFiles :: "(string \<times> Session) list"
  thoughtFiles :: "string \<Rightarrow> ThoughtRecord list option"
  taskFiles :: "string \<Rightarrow> TaskCommit list option"
  docFiles :: "string \<Rightarrow> DocumentationEntry option"
  pendingQueue :: "(string \<times> SessionContext) list"
  batchTimer :: bool
  calls :: "Call list"
  retryQueue :: "(DevPatternEvent \<times> int) list"
  deadLetter :: "DeadLetterEntry list"
  processedCount :: nat
  published :: "DevPatternEvent list"

subsection \<open>Storage (storage.ts)\<close>

definition getSession :: "World \<Rightarrow> string \<Rightarrow> Session option" where
  "getSession w i = map_of (sessionFiles w) i"

definition getThoughts :: "World \<Rightarrow> string \<Rightarrow> ThoughtRecord list" where
  "getThoughts w i = (case thoughtFiles w i of None \<Rightarrow> [] | Some ts \<Rightarrow> ts)"

definition getTasks :: "World \<Rightarrow> string \<Rightarrow> TaskCommit list" where
  "getTasks w i = (case taskFiles w i of None \<Rightarrow> [] | Some ts \<Rightarrow> ts)"

definition getSessionContext :: "World \<Rightarrow> string \<Rightarrow> SessionContext option" where
  "getSessionContext w i =
     (case getSession w i of
        None \<Rightarrow> None
      | Some s \<Rightarrow> Some \<lparr> session = s, thoughts = getThoughts w i, tasks = getTasks w i \<rparr>)"

definition getDocumentation :: "World \<Rightarrow> string \<Rightarrow> DocumentationEntry option" where
  "getDocumentation w i = docFiles w i"

definition saveDocumentation :: "DocumentationEntry \<Rightarrow> World \<Rightarrow> World" where
  "saveDocumentation doc w = w\<lparr> docFiles := (docFiles w)(doc_sessionId doc \<mapsto> doc) \<rparr>"

text \<open>
  \<open>updateSession\<close> writes \<open>session.json\<close> into the session's directory.  It is only
  called for sessions read from that directory, where the file is overwritten in
  place; for a directory that does not exist the write would fail, and the entry
  added here instead is not used by any statement.
\<close>

definition updateSession :: "Session \<Rightarrow> World \<Rightarrow> World" where
  "updateSession s w = w\<lparr> sessionFiles := mapSet (session_id s) s (sessionFiles w) \<rparr>"

definition listActiveSessions :: "World \<Rightarrow> Session list" where
  "listActiveSessions w =
     filter (\<lambda>s. status s = Active \<or> status s = Completed) (map snd (sessionFiles w))"

subsection \<open>The generation client\<close>

text \<open>
  \<open>anthropic.messages.create\<close> followed by
  \<^verbatim>\<open>response.content[0].type === 'text' ? response.content[0].text : ''\<close>.
\<close>

definition messagesCreate ::
  "Llm \<Rightarrow> string \<Rightarrow> nat \<Rightarrow> Prompt \<Rightarrow> World \<Rightarrow> (error + string) \<times> World" where
  "messagesCreate llm model maxTokens prompt w =
     (let w' = w\<lparr> calls := calls w @ [MessagesCreate model maxTokens prompt] \<rparr>
      in case llm (calls w') of
           ApiError m \<Rightarrow> (Inl (GenerationFailed m), w')
         | TextBlock t \<Rightarrow> (Inr t, w')
         | OtherBlock \<Rightarrow> (Inr [], w'))"

definition branchesOf :: "ThoughtRecord list \<Rightarrow> string list" where
  "branchesOf ts =
     uniqueFirst (map (\<lambda>t. the (branchId t))
       (filter (\<lambda>t. case branchId t of None \<Rightarrow> False | Some b \<Rightarrow> b \<noteq> []) ts))"

section \<open>Batch processor (batch-processor.ts)\<close>

definition mkBatchDoc :: "int \<Rightarrow> SessionContext \<Rightarrow> ParsedBatchDoc \<Rightarrow> DocumentationEntry" where
  "mkBatchDoc now s parsed = \<lparr>
     doc_sessionId = session_id (session s),
     generatedAt = now,
     summary = (if p_executiveSummary parsed \<noteq> [] then p_executiveSummary parsed
                else ''Session with '' @ showNat (length (thoughts s)) @ '' thoughts''),
     doc_thoughtCount = int (length (thoughts s)),
     doc_taskCount = int (length (tasks s)),
     branches = branchesOf (thoughts s),
     content = p_content parsed,
     executiveSummary = Some (p_executiveSummary parsed),
     problemStatement = Some (p_problemStatement parsed),
     approach = Some (p_approach parsed),
     doc_outcome = Some (p_outcome parsed),
     keyInsights = Some (p_keyInsights parsed),
     tags = Some (p_tags parsed) \<rparr>"

text \<open>The loop \<open>for (const session of sessions)\<close> that saves each parsed document.\<close>

fun saveParsed ::
  "int \<Rightarrow> (string \<times> ParsedBatchDoc) list \<Rightarrow> SessionContext list \<Rightarrow> World \<Rightarrow> World" where
  "saveParsed now parsedDocs [] w = w"
| "saveParsed now parsedDocs (s # ss) w =
     saveParsed now parsedDocs ss
       (case mapGet parsedDocs (session_id (session s)) of
          Some parsed \<Rightarrow> saveDocumentation (mkBatchDoc now s parsed) w
        | None \<Rightarrow> w)"

definition processTierBatch ::
  "Llm \<Rightarrow> int \<Rightarrow> SessionContext list \<Rightarrow> string \<Rightarrow> World \<Rightarrow> (error + unit) \<times> World" where
  "processTierBatch llm now sessions model w =
     (if sessions = [] then (Inr (), w)
      else (case messagesCreate llm model 4000 (BatchPrompt sessions) w of
              (Inl e, w') \<Rightarrow> (Inl e, w')
            | (Inr responseText, w') \<Rightarrow>
                (Inr (), saveParsed now (parseBatchResponse responseText sessions) sessions w')))"

definition basicTier :: "SessionContext list \<Rightarrow> SessionContext list" where
  "basicTier sessions = filter (\<lambda>s. tier (session s) \<noteq> Some ''premium'') sessions"

definition premiumTier :: "SessionContext list \<Rightarrow> SessionContext list" where
  "premiumTier sessions = filter (\<lambda>s. tier (session s) = Some ''premium'') sessions"

text \<open>The sessions one \<open>processBatch\<close> takes out of the pending map.\<close>

definition takeBatch :: "Config \<Rightarrow> World \<Rightarrow> SessionContext list" where
  "takeBatch cfg w = slice0 (batchSize cfg) (map snd (pendingQueue w))"

text \<open>
  \<open>Promise.all\<close> starts both tier batches: each sends its request before either
  answer is awaited, the basic one first, and each runs to its end whether or not
  the other fails.  The two groups hold different session ids, so the order in which
  they save does not show in the state; the failure reported is taken to be the
  basic group's when both fail.
\<close>

definition processBatch :: "Config \<Rightarrow> Llm \<Rightarrow> int \<Rightarrow> World \<Rightarrow> (error + unit) \<times> World" where
  "processBatch cfg llm now w =
     (let w1 = w\<lparr> batchTimer := False \<rparr>;
          sessions = takeBatch cfg w1;
          w2 = w1\<lparr> pendingQueue :=
                 foldl (\<lambda>q s. mapDelete (session_id (session s)) q) (pendingQueue w1) sessions \<rparr>
      in if sessions = [] then (Inr (), w2)
         else (case processTierBatch llm now (basicTier sessions) (basicModel cfg) w2 of
                 (r1, w3) \<Rightarrow>
                   (case processTierBatch llm now (premiumTier sessions) (premiumModel cfg) w3 of
                      (r2, w4) \<Rightarrow> ((case r1 of Inl e \<Rightarrow> Inl e | Inr u \<Rightarrow> r2), w4))))"

definition queueSession ::
  "Config \<Rightarrow> Llm \<Rightarrow> int \<Rightarrow> SessionContext \<Rightarrow> World \<Rightarrow> (error + unit) \<times> World" where
  "queueSession cfg llm now sessionContext w =
     (let w0 = w\<lparr> calls := calls w @ [QueueSession (session_id (session sessionContext))] \<rparr>;
          w1 = w0\<lparr> pendingQueue :=
                 mapSet (session_id (session sessionContext)) sessionContext (pendingQueue w0) \<rparr>
      in if int (length (pendingQueue w1)) \<ge> batchSize cfg then processBatch cfg llm now w1
         else if \<not> batchTimer w1 then (Inr (), w1\<lparr> batchTimer := True \<rparr>)
         else (Inr (), w1))"

text \<open>The callback of the window timer armed by \<open>queueSession\<close>.\<close>

definition batchTimerFires :: "Config \<Rightarrow> Llm \<Rightarrow> int \<Rightarrow> World \<Rightarrow> (error + unit) \<times> World" where
  "batchTimerFires cfg llm now w =
     (if batchTimer w then processBatch cfg llm now w else (Inr (), w))"

definition getPendingCount :: "World \<Rightarrow> nat" where
  "getPendingCount w = length (pendingQueue w)"

definition flush :: "Config \<Rightarrow> Llm \<Rightarrow> int \<Rightarrow> World \<Rightarrow> (error + unit) \<times> World" where
  "flush cfg llm now w =
     (if length (pendingQueue w) > 0 then processBatch cfg llm now w else (Inr (), w))"

section \<open>Summarizer (summarizer.ts, prompts/staged-summary.ts)\<close>

definition STAGE_SIZE :: nat where
  "STAGE_SIZE = 20"

definition mkDoc ::
  "int \<Rightarrow> SessionContext \<Rightarrow> string \<Rightarrow> string \<Rightarrow> DocumentationEntry" where
  "mkDoc now sessionContext fallback cont = \<lparr>
     doc_sessionId = session_id (session sessionContext),
     generatedAt = now,
     summary = (if extractSection cont ''Executive Summary'' \<noteq> []
                then extractSection cont ''Executive Summary'' else fallback),
     doc_thoughtCount = int (length (thoughts sessionContext)),
     doc_taskCount = int (length (tasks sessionContext)),
     branches = branchesOf (thoughts sessionContext),
     content = cont,
     executiveSummary = Some (extractSection cont ''Executive Summary''),
     problemStatement = Some (extractSection cont ''Problem Statement''),
     approach = Some (extractSection cont ''Approach''),
     doc_outcome = Some (extractSection cont ''Outcome''),
     keyInsights = Some (extractSection cont ''Key Insights''),
     tags = Some (extractTags cont) \<rparr>"

definition singlePassSummarization ::
  "Llm \<Rightarrow> int \<Rightarrow> SessionContext \<Rightarrow> string \<Rightarrow> World \<Rightarrow> (error + DocumentationEntry) \<times> World" where
  "singlePassSummarization llm now sessionContext model w =
     (case messagesCreate llm model 2000 (SinglePrompt sessionContext) w of
        (Inl e, w') \<Rightarrow> (Inl e, w')
      | (Inr cont, w') \<Rightarrow>
          (let doc = mkDoc now sessionContext
                 (''Session with '' @ showNat (length (thoughts sessionContext)) @ '' thoughts'')
                 cont
           in (Inr doc, saveDocumentation doc w')))"

text \<open>
  The loop \<open>for (let i = 0; i < thoughts.length; i += STAGE_SIZE)\<close>: one request per
  chunk, the summaries pushed in order; a request that throws ends the loop with its
  error.
\<close>

function stageLoop ::
  "Llm \<Rightarrow> string \<Rightarrow> ThoughtRecord list \<Rightarrow> nat \<Rightarrow> nat \<Rightarrow> string list \<Rightarrow> World
     \<Rightarrow> (error + string list) \<times> World" where
  "stageLoop llm model ts totalStages i stageSummaries w =
     (if i < length ts
      then (let chunk = slice i (i + STAGE_SIZE) ts;
                stageNum = i div STAGE_SIZE + 1
            in case messagesCreate llm model 500 (StagePrompt chunk stageNum totalStages) w of
                 (Inl e, w') \<Rightarrow> (Inl e, w')
               | (Inr summ, w') \<Rightarrow>
                   stageLoop llm model ts totalStages (i + STAGE_SIZE) (stageSummaries @ [summ]) w')
      else (Inr stageSummaries, w))"
  by pat_completeness auto
termination
  by (relation "measure (\<lambda>(llm, model, ts, totalStages, i, stageSummaries, w). length ts - i)")
     (auto simp: STAGE_SIZE_def)

declare stageLoop.simps [simp del]

definition stagedSummarization ::
  "Llm \<Rightarrow> int \<Rightarrow> SessionContext \<Rightarrow> string \<Rightarrow> World \<Rightarrow> (error + DocumentationEntry) \<times> World" where
  "stagedSummarization llm now sessionContext model w =
     (let ts = thoughts sessionContext;
          totalStages = (length ts + STAGE_SIZE - 1) div STAGE_SIZE
      in case stageLoop llm model ts totalStages 0 [] w of
           (Inl e, w1) \<Rightarrow> (Inl e, w1)
         | (Inr stageSummaries, w1) \<Rightarrow>
             (case messagesCreate llm model 3000
                     (SynthesisPrompt stageSummaries (tasks sessionContext) (session sessionContext))
                     w1 of
                (Inl e, w2) \<Rightarrow> (Inl e, w2)
              | (Inr cont, w2) \<Rightarrow>
                  (let doc = mkDoc now sessionContext
                         (''Large session with '' @ showNat (length ts) @ '' thoughts'') cont
                   in (Inr doc, saveDocumentation doc w2))))"

definition generateDocumentation ::
  "Config \<Rightarrow> Llm \<Rightarrow> int \<Rightarrow> SessionContext \<Rightarrow> string \<Rightarrow> World
     \<Rightarrow> (error + DocumentationEntry) \<times> World" where
  "generateDocumentation cfg llm now sessionContext tr w =
     (let w0 = w\<lparr> calls := calls w
                 @ [GenerateDocumentation (session_id (session sessionContext)) tr] \<rparr>;
          model = (if tr = ''premium'' then premiumModel cfg else basicModel cfg)
      in if length (thoughts sessionContext) > STAGE_SIZE
         then stagedSummarization llm now sessionContext model w0
         else singlePassSummarization llm now sessionContext model w0)"

section \<open>Worker (worker.ts)\<close>

text \<open>The cache check of \<open>processSession\<close>: the stored document is up to date.\<close>

definition upToDate :: "DocumentationEntry \<Rightarrow> SessionContext \<Rightarrow> bool" where
  "upToDate existingDoc sessionContext \<longleftrightarrow>
     generatedAt existingDoc > updatedAt (session sessionContext)
     \<and> doc_thoughtCount existingDoc = int (length (thoughts sessionContext))
     \<and> doc_taskCount existingDoc = int (length (tasks sessionContext))"

definition processSession ::
  "Config \<Rightarrow> Llm \<Rightarrow> int \<Rightarrow> DevPatternEvent \<Rightarrow> World \<Rightarrow> (error + unit) \<times> World" where
  "processSession cfg llm now event w =
     (case getSessionContext w (sessionId event) of
        None \<Rightarrow> (Inl (SessionNotFound (sessionId event)), w)
      | Some sessionContext \<Rightarrow>
          if (case getDocumentation w (sessionId event) of
                Some existingDoc \<Rightarrow> upToDate existingDoc sessionContext
              | None \<Rightarrow> False)
          then (Inr (), w)
          else if length (thoughts sessionContext) \<le> 20
          then queueSession cfg llm now sessionContext w
          else (let tr = (case pl_tier (payload event) of
                            None \<Rightarrow> ''basic''
                          | Some t \<Rightarrow> if t = [] then ''basic'' else t)
                in case generateDocumentation cfg llm now sessionContext tr w of
                     (Inl e, w') \<Rightarrow> (Inl e, w')
                   | (Inr doc, w') \<Rightarrow> (Inr (), w')))"









definition shutdown :: "Config \<Rightarrow> Llm \<Rightarrow> int \<Rightarrow> World \<Rightarrow> (error + unit) \<times> World" where
  "shutdown cfg llm now w = flush cfg llm now w"

section \<open>Idle session scanner (idle-scanner.ts)\<close>

definition autoFinalize :: "Config \<Rightarrow> int \<Rightarrow> Session \<Rightarrow> World \<Rightarrow> World" where
  "autoFinalize cfg now s w =
     (let tks = getTasks w (session_id s);
          completedTasks = length (filter (\<lambda>t. tk_status t = TaskCompleted) tks);
          oc = (if completedTasks > 0 then OutcomeCompleted else OutcomeAbandoned);
          s' = s\<lparr> status := Finalized, outcome := Some oc, autoFinalized := Some True,
                  updatedAt := now \<rparr>;
          w1 = updateSession s' w;
          event = \<lparr> ev_type = SessionIdleTimeout,
                    sessionId = session_id s',
                    ev_tenantId = tenantId s',
                    ev_timestamp = now,
                    payload = \<lparr> pl_outcome = Some oc,
                                pl_agentSummary = None,
                                pl_thoughtCount = Some (thoughtCount s'),
                                pl_taskCount = Some (taskCount s'),
                                pl_tier = Some (case tier s' of
                                                  None \<Rightarrow> ''basic''
                                                | Some t \<Rightarrow> if t = [] then ''basic'' else t),
                                retryCount = None,
                                idleMinutes = Some (idleTimeoutMinutes cfg) \<rparr> \<rparr>
      in w1\<lparr> published := published w1 @ [event] \<rparr>)"

text \<open>
  \<open>scan\<close>: the list of active sessions is read once, then each session idle for longer
  than the timeout is finalized in turn.
\<close>

definition isIdle :: "Config \<Rightarrow> int \<Rightarrow> Session \<Rightarrow> bool" where
  "isIdle cfg now s \<longleftrightarrow> now - updatedAt s > idleTimeoutMinutes cfg * 60 * 1000"

fun scanLoop :: "Config \<Rightarrow> int \<Rightarrow> Session list \<Rightarrow> World \<Rightarrow> World" where
  "scanLoop cfg now [] w = w"
| "scanLoop cfg now (s # ss) w =
     scanLoop cfg now ss (if isIdle cfg now s then autoFinalize cfg now s w else w)"

definition scan :: "Config \<Rightarrow> int \<Rightarrow> World \<Rightarrow> World" where
  "scan cfg now w = scanLoop cfg now (listActiveSessions w) w"

section \<open>Notions used in the statements\<close>

text \<open>The request one tier group sends, if the group is not empty.\<close>

definition tierCall :: "SessionContext list \<Rightarrow> string \<Rightarrow> Call list" where
  "tierCall sessions model =
     (if sessions = [] then [] else [MessagesCreate model 4000 (BatchPrompt sessions)])"

text \<open>The requests of one flush: the basic group's, then the premium group's.\<close>

definition tierCalls :: "Config \<Rightarrow> SessionContext list \<Rightarrow> Call list" where
  "tierCalls cfg sessions =
     tierCall (basicTier sessions) (basicModel cfg)
     @ tierCall (premiumTier sessions) (premiumModel cfg)"

text \<open>
  What \<open>queueSession\<close> maintains of the pending map: keys are distinct and every
  context is stored under its own session id.
\<close>

definition pendingOk :: "(string \<times> SessionContext) list \<Rightarrow> bool" where
  "pendingOk q \<longleftrightarrow>
     distinct (map fst q) \<and> (\<forall>kc \<in> set q. fst kc = session_id (session (snd kc)))"

text \<open>How many pending entries one \<open>processBatch\<close> takes (\<open>slice(0, batchSize)\<close>).\<close>

definition batchPrefix :: "Config \<Rightarrow> World \<Rightarrow> nat" where
  "batchPrefix cfg w =
     (if 0 \<le> batchSize cfg then nat (batchSize cfg)
      else length (pendingQueue w) - nat (- batchSize cfg))"

text \<open>The documentation files after the save loop of \<open>processTierBatch\<close>.\<close>

fun savedDocs ::
  "int \<Rightarrow> (string \<times> ParsedBatchDoc) list \<Rightarrow> SessionContext list
     \<Rightarrow> (string \<Rightarrow> DocumentationEntry option) \<Rightarrow> (string \<Rightarrow> DocumentationEntry option)" where
  "savedDocs now parsedDocs [] df = df"
| "savedDocs now parsedDocs (s # ss) df =
     savedDocs now parsedDocs ss
       (case mapGet parsedDocs (session_id (session s)) of
          Some parsed \<Rightarrow> df(session_id (session s) \<mapsto> mkBatchDoc now s parsed)
        | None \<Rightarrow> df)"

section \<open>Example data\<close>

definition exampleSession :: "string \<Rightarrow> string option \<Rightarrow> Session" where
  "exampleSession i t = \<lparr> session_id = i, createdAt = 0, updatedAt = 0, status = Finalized,
     outcome = None, thoughtCount = 0, taskCount = 0, tenantId = None, tier = t,
     agentSummary = None, autoFinalized = None \<rparr>"

definition exampleContext :: "string \<Rightarrow> string option \<Rightarrow> SessionContext" where
  "exampleContext i t = \<lparr> session = exampleSession i t, thoughts = [], tasks = [] \<rparr>"

definition exampleConfig :: "int \<Rightarrow> int \<Rightarrow> Config" where
  "exampleConfig b m = \<lparr> dataPath = ''./data'', redisUrl = ''redis://localhost:6379'',
     anthropicApiKey = ''key'', basicModel = ''claude-3-5-haiku-20241022'',
     premiumModel = ''claude-3-5-sonnet-20241022'', idleTimeoutMinutes = 10, batchSize = b,
     batchWindowSeconds = 30, maxRetries = m, retryDelays = [5000, 30000, 120000],
     healthPort = 3002, nodeEnv = ''development'' \<rparr>"

definition emptyWorld :: World where
  "emptyWorld = \<lparr> sessionFiles = [], thoughtFiles = (\<lambda>i. None), taskFiles = (\<lambda>i. None),
     docFiles = (\<lambda>i. None), pendingQueue = [], batchTimer = False, calls = [],
     retryQueue = [], deadLetter = [], processedCount = 0, published = [] \<rparr>"

definition failingLlm :: Llm where
  "failingLlm cs = ApiError ''unavailable''"

definition pendingWorld :: "SessionContext list \<Rightarrow> World" where
  "pendingWorld cs =
     emptyWorld\<lparr> pendingQueue := map (\<lambda>c. (session_id (session c), c)) cs \<rparr>"

section \<open>Sequences of calls\<close>

text \<open>
  The calls made on the accumulator, each at its own time: \<open>queueSession\<close>, the callback
  of the window timer and \<open>flush\<close>.  \<open>runCalls\<close> makes a sequence of them one after the
  other, \<open>queueAll\<close> a sequence of \<open>queueSession\<close> calls.
\<close>

datatype AccumulatorCall =
    QueueCall int SessionContext
  | TimerCall int
  | FlushCall int

fun applyCall :: "Config \<Rightarrow> Llm \<Rightarrow> World \<Rightarrow> AccumulatorCall \<Rightarrow> World" where
  "applyCall cfg llm w (QueueCall now c) = snd (queueSession cfg llm now c w)"
| "applyCall cfg llm w (TimerCall now) = snd (batchTimerFires cfg llm now w)"
| "applyCall cfg llm w (FlushCall now) = snd (flush cfg llm now w)"

definition runCalls :: "Config \<Rightarrow> Llm \<Rightarrow> AccumulatorCall list \<Rightarrow> World \<Rightarrow> World" where
  "runCalls cfg llm cs w = foldl (applyCall cfg llm) w cs"

definition queueAll ::
  "Config \<Rightarrow> Llm \<Rightarrow> (int \<times> SessionContext) list \<Rightarrow> World \<Rightarrow> World" where
  "queueAll cfg llm tcs w = runCalls cfg llm (map (\<lambda>tc. QueueCall (fst tc) (snd tc)) tcs) w"

definition pendingEntry :: "SessionContext \<Rightarrow> string \<times> SessionContext" where
  "pendingEntry c = (session_id (session c), c)"

section \<open>Blocks of a batch response\<close>

text \<open>
  The well-formed blocks of a response: the successive matches of the session pattern,
  each with its id and its body, in the order of the text.
\<close>

function sessionBlocks :: "string \<Rightarrow> (string \<times> string) list" where
  "sessionBlocks response =
     (case execSession response of
        None \<Rightarrow> []
      | Some (sessId, body, rest) \<Rightarrow> (sessId, body) # sessionBlocks rest)"
  by pat_completeness auto
termination
  by (relation "measure length") (auto dest: execSession_shorter)

declare sessionBlocks.simps [simp del]

text \<open>What one iteration of the parse loop stores, and the entry made from a block.\<close>

definition storeBlock ::
  "(string \<times> ParsedBatchDoc) list \<Rightarrow> string \<times> string \<Rightarrow> (string \<times> ParsedBatchDoc) list" where
  "storeBlock docs b = mapSet (fst b) (mkParsed (fst b) (trim (snd b))) docs"





definition foreignIdResponse :: string where
  "foreignIdResponse = ''===SESSION_START: x=== y ===SESSION_END===''"

definition answeringLlm :: "string \<Rightarrow> Llm" where
  "answeringLlm t cs = TextBlock t"

section \<open>Stages of a staged summarization\<close>

text \<open>
  The number of stages \<open>Math.ceil(thoughts.length / STAGE_SIZE)\<close>, the thoughts of stage
  \<open>k\<close> (counted from 0), the request for stage \<open>k\<close>, the stage requests in order and
  the synthesis request over given stage summaries.
\<close>

definition stageCount :: "ThoughtRecord list \<Rightarrow> nat" where
  "stageCount ts = (length ts + STAGE_SIZE - 1) div STAGE_SIZE"

definition stageChunk :: "ThoughtRecord list \<Rightarrow> nat \<Rightarrow> ThoughtRecord list" where
  "stageChunk ts k = take STAGE_SIZE (drop (k * STAGE_SIZE) ts)"

definition stageCall :: "string \<Rightarrow> ThoughtRecord list \<Rightarrow> nat \<Rightarrow> Call" where
  "stageCall model ts k =
     MessagesCreate model 500 (StagePrompt (stageChunk ts k) (Suc k) (stageCount ts))"

definition stageCalls :: "string \<Rightarrow> ThoughtRecord list \<Rightarrow> Call list" where
  "stageCalls model ts = map (stageCall model ts) [0..<stageCount ts]"

definition synthesisCall :: "string \<Rightarrow> string list \<Rightarrow> SessionContext \<Rightarrow> Call" where
  "synthesisCall model sums sessionContext =
     MessagesCreate model 3000
       (SynthesisPrompt sums (tasks sessionContext) (session sessionContext))"

text \<open>
  The text the code reads from a response, \<open>None\<close> when the call throws; and sending a
  list of requests one after the other until one throws, collecting the texts.
\<close>

definition responseText :: "LlmResponse \<Rightarrow> string option" where
  "responseText r = (case r of ApiError m \<Rightarrow> None | TextBlock t \<Rightarrow> Some t | OtherBlock \<Rightarrow> Some [])"

fun sendAll :: "Llm \<Rightarrow> Call list \<Rightarrow> Call list \<Rightarrow> (error + string list) \<times> Call list" where
  "sendAll llm h [] = (Inr [], h)"
| "sendAll llm h (c # cs) =
     (case llm (h @ [c]) of
        ApiError m \<Rightarrow> (Inl (GenerationFailed m), h @ [c])
      | TextBlock t \<Rightarrow>
          (case sendAll llm (h @ [c]) cs of
             (Inl e, h') \<Rightarrow> (Inl e, h')
           | (Inr ss, h') \<Rightarrow> (Inr (t # ss), h'))
      | OtherBlock \<Rightarrow>
          (case sendAll llm (h @ [c]) cs of
             (Inl e, h') \<Rightarrow> (Inl e, h')
           | (Inr ss, h') \<Rightarrow> (Inr ([] # ss), h')))"

text \<open>A session of 45 thoughts, and a generation client whose \<open>n\<close>-th call throws.\<close>

definition exampleThought :: ThoughtRecord where
  "exampleThought = \<lparr> th_sessionId = ''big'', thought = ''step'', thoughtNumber = 1,
     totalThoughts = 45, branchId = None, isRevision = None, revisesThought = None,
     th_timestamp = 0 \<rparr>"

definition largeContext :: SessionContext where
  "largeContext = \<lparr> session = exampleSession ''big'' None,
     thoughts = replicate 45 exampleThought, tasks = [] \<rparr>"

definition failsAtCall :: "nat \<Rightarrow> Llm" where
  "failsAtCall n cs = (if length cs = n then ApiError ''overloaded'' else TextBlock ''s'')"

section \<open>Auto-finalization\<close>

text \<open>
  The outcome derived from a task list, the session record \<open>autoFinalize\<close> writes, the
  event it publishes, and the shape of the sessions directory: directory names are
  distinct and each \<open>session.json\<close> holds the id of its directory.
\<close>

definition outcomeOf :: "TaskCommit list \<Rightarrow> Outcome" where
  "outcomeOf tks =
     (if \<exists>t \<in> set tks. tk_status t = TaskCompleted then OutcomeCompleted else OutcomeAbandoned)"

definition finalizedSession :: "int \<Rightarrow> TaskCommit list \<Rightarrow> Session \<Rightarrow> Session" where
  "finalizedSession now tks s =
     s\<lparr> status := Finalized, outcome := Some (outcomeOf tks), autoFinalized := Some True,
        updatedAt := now \<rparr>"

definition idleTimeoutEvent :: "Config \<Rightarrow> int \<Rightarrow> TaskCommit list \<Rightarrow> Session \<Rightarrow> DevPatternEvent" where
  "idleTimeoutEvent cfg now tks s =
     \<lparr> ev_type = SessionIdleTimeout, sessionId = session_id s, ev_tenantId = tenantId s,
       ev_timestamp = now,
       payload = \<lparr> pl_outcome = Some (outcomeOf tks), pl_agentSummary = None,
                   pl_thoughtCount = Some (thoughtCount s), pl_taskCount = Some (taskCount s),
                   pl_tier = Some (case tier s of None \<Rightarrow> ''basic''
                                   | Some t \<Rightarrow> if t = [] then ''basic'' else t),
                   retryCount = None, idleMinutes = Some (idleTimeoutMinutes cfg) \<rparr> \<rparr>"

definition storageOk :: "World \<Rightarrow> bool" where
  "storageOk w \<longleftrightarrow>
     distinct (map fst (sessionFiles w))
     \<and> (\<forall>ds \<in> set (sessionFiles w). session_id (snd ds) = fst ds)"

text \<open>A task, an active session, and a data directory with three active sessions.\<close>

definition exampleTask :: "string \<Rightarrow> TaskStatus \<Rightarrow> TaskCommit" where
  "exampleTask i st = \<lparr> tk_sessionId = i, taskId = ''t1'', taskTitle = ''Add login'',
     description = None, completedAtThought = 3, tk_status = st, tk_createdAt = 0,
     completedAt = None \<rparr>"

definition activeSession :: "string \<Rightarrow> int \<Rightarrow> Session" where
  "activeSession i t = (exampleSession i None)\<lparr> status := Active, updatedAt := t \<rparr>"

definition scanWorld :: World where
  "scanWorld = emptyWorld\<lparr>
     sessionFiles := [(''done'', activeSession ''done'' 0), (''idle'', activeSession ''idle'' 0),
                      (''busy'', activeSession ''busy'' 650000)],
     taskFiles := (\<lambda>i. if i = ''done'' then Some [exampleTask ''done'' TaskCompleted]
                        else if i = ''idle'' then Some [exampleTask ''idle'' InProgress]
                        else None) \<rparr>"

section \<open>Staleness, retries and dead letters\<close>

text \<open>
  Staleness in the words of the specification: an entry is stale if its \<open>generatedAt\<close>
  precedes the session's \<open>updatedAt\<close>, or its captured counts differ from the current
  counts.
\<close>

definition staleAsSpecified :: "DocumentationEntry \<Rightarrow> SessionContext \<Rightarrow> bool" where
  "staleAsSpecified d sc \<longleftrightarrow>
     generatedAt d < updatedAt (session sc)
     \<or> doc_thoughtCount d \<noteq> int (length (thoughts sc))
     \<or> doc_taskCount d \<noteq> int (length (tasks sc))"

text \<open>The tier \<open>processSession\<close> passes on: \<open>event.payload.tier || 'basic'\<close>.\<close>

definition payloadTier :: "DevPatternEvent \<Rightarrow> string" where
  "payloadTier ev =
     (case pl_tier (payload ev) of None \<Rightarrow> ''basic'' | Some t \<Rightarrow> if t = [] then ''basic'' else t)"







text \<open>A stored document, a finalize event, a world with one documented session, an environment.\<close>

definition exampleDoc :: "string \<Rightarrow> int \<Rightarrow> DocumentationEntry" where
  "exampleDoc i t = \<lparr> doc_sessionId = i, generatedAt = t, summary = ''Session with 0 thoughts'',
     doc_thoughtCount = 0, doc_taskCount = 0, branches = [], content = [],
     executiveSummary = Some [], problemStatement = Some [], approach = Some [],
     doc_outcome = Some [], keyInsights = Some [], tags = Some [] \<rparr>"

definition finalizeEvent :: "string \<Rightarrow> DevPatternEvent" where
  "finalizeEvent i = \<lparr> ev_type = SessionFinalized, sessionId = i, ev_tenantId = None,
     ev_timestamp = 0,
     payload = \<lparr> pl_outcome = None, pl_agentSummary = None, pl_thoughtCount = None,
                 pl_taskCount = None, pl_tier = None, retryCount = None, idleMinutes = None \<rparr> \<rparr>"

definition documentedContext :: "int \<Rightarrow> SessionContext" where
  "documentedContext tSession =
     \<lparr> session = (exampleSession ''s1'' None)\<lparr> updatedAt := tSession \<rparr>,
       thoughts = [], tasks = [] \<rparr>"

definition documentedWorld :: "int \<Rightarrow> int \<Rightarrow> World" where
  "documentedWorld tSession tDoc = emptyWorld\<lparr>
     sessionFiles := [(''s1'', (exampleSession ''s1'' None)\<lparr> updatedAt := tSession \<rparr>)],
     docFiles := (\<lambda>i. if i = ''s1'' then Some (exampleDoc ''s1'' tDoc) else None) \<rparr>"

definition exampleEnv :: "int \<Rightarrow> int \<Rightarrow> Env" where
  "exampleEnv b m = \<lparr> DATA_PATH = None, REDIS_URL = None, ANTHROPIC_API_KEY = Some ''key'',
     BASIC_MODEL = None, PREMIUM_MODEL = None, IDLE_TIMEOUT_MINUTES = None,
     BATCH_SIZE = Some b, BATCH_WINDOW_SECONDS = None, MAX_RETRIES = Some m,
     HEALTH_PORT = None, NODE_ENV = None \<rparr>"


section \<open>What one flush does for a pending session\<close>

text \<open>
  The tier group a session falls into, the request sent for that group, and the call
  record up to and including that request (the basic group's request is sent before
  the premium group's).  \<open>documentedFrom\<close> is the documentation file of a session once
  its group's request has been answered: made from the block parsed for its id, and
  left as it was when the request throws or the answer holds no block for the id.
\<close>

definition tierGroup :: "SessionContext list \<Rightarrow> SessionContext \<Rightarrow> SessionContext list" where
  "tierGroup sessions s =
     (if tier (session s) = Some ''premium'' then premiumTier sessions else basicTier sessions)"

definition tierRequest :: "Config \<Rightarrow> SessionContext list \<Rightarrow> SessionContext \<Rightarrow> Call" where
  "tierRequest cfg sessions s =
     MessagesCreate
       (if tier (session s) = Some ''premium'' then premiumModel cfg else basicModel cfg)
       4000 (BatchPrompt (tierGroup sessions s))"

definition tierHistory ::
  "Config \<Rightarrow> Call list \<Rightarrow> SessionContext list \<Rightarrow> SessionContext \<Rightarrow> Call list" where
  "tierHistory cfg h sessions s =
     (if tier (session s) = Some ''premium''
      then h @ tierCall (basicTier sessions) (basicModel cfg) @ [tierRequest cfg sessions s]
      else h @ [tierRequest cfg sessions s])"

definition documentedFrom ::
  "int \<Rightarrow> SessionContext \<Rightarrow> SessionContext list \<Rightarrow> LlmResponse
     \<Rightarrow> DocumentationEntry option \<Rightarrow> DocumentationEntry option" where
  "documentedFrom now s sessions r before =
     (case responseText r of
        None \<Rightarrow> before
      | Some t \<Rightarrow>
          (case mapGet (parseBatchResponse t sessions) (session_id (session s)) of
             None \<Rightarrow> before
           | Some parsed \<Rightarrow> Some (mkBatchDoc now s parsed)))"

section \<open>Properties of the batch processor\<close>

lemma messagesCreate_calls [simp]:
  "calls (snd (messagesCreate llm model mt p w)) = calls w @ [MessagesCreate model mt p]"
  by (simp add: messagesCreate_def Let_def split: LlmResponse.splits)

lemma saveDocumentation_simps [simp]:
  "calls (saveDocumentation d w) = calls w"
  "pendingQueue (saveDocumentation d w) = pendingQueue w"
  "batchTimer (saveDocumentation d w) = batchTimer w"
  "retryQueue (saveDocumentation d w) = retryQueue w"
  "deadLetter (saveDocumentation d w) = deadLetter w"
  "sessionFiles (saveDocumentation d w) = sessionFiles w"
  "docFiles (saveDocumentation d w) = (docFiles w)(doc_sessionId d \<mapsto> d)"
  by (simp_all add: saveDocumentation_def)

lemma saveParsed_simps [simp]:
  "calls (saveParsed now pd ss w) = calls w"
  "pendingQueue (saveParsed now pd ss w) = pendingQueue w"
  "batchTimer (saveParsed now pd ss w) = batchTimer w"
  "retryQueue (saveParsed now pd ss w) = retryQueue w"
  "deadLetter (saveParsed now pd ss w) = deadLetter w"
  "sessionFiles (saveParsed now pd ss w) = sessionFiles w"
  by (induction ss arbitrary: w; simp split: option.splits)+

lemma saveParsed_other:
  "i \<notin> (\<lambda>s. session_id (session s)) ` set ss \<Longrightarrow>
   docFiles (saveParsed now pd ss w) i = docFiles w i"
  by (induction ss arbitrary: w) (auto simp: mkBatchDoc_def split: option.splits)

lemma messagesCreate_world:
  "messagesCreate llm model mt p w = (r, w') \<Longrightarrow>
   w' = w\<lparr> calls := calls w @ [MessagesCreate model mt p] \<rparr>"
  by (auto simp: messagesCreate_def Let_def split: LlmResponse.splits)

lemma takeBatch_prefix: "takeBatch cfg w = map snd (take (batchPrefix cfg w) (pendingQueue w))"
  by (simp add: takeBatch_def slice0_def batchPrefix_def take_map)

lemma mapDelete_head:
  "k \<notin> fst ` set q \<Longrightarrow> mapDelete k ((k, v) # q) = q"
  by (induction q) (auto simp: mapDelete_def)

lemma pendingOk_Cons:
  "pendingOk ((k, c) # q) \<longleftrightarrow> k = session_id (session c) \<and> k \<notin> fst ` set q \<and> pendingOk q"
  by (auto simp: pendingOk_def)

lemma delete_prefix:
  "pendingOk (xs @ ys) \<Longrightarrow>
   foldl (\<lambda>q s. mapDelete (session_id (session s)) q) (xs @ ys) (map snd xs) = ys"
proof (induction xs)
  case Nil
  then show ?case by simp
next
  case (Cons x xs)
  obtain k c where x: "x = (k, c)" by (cases x)
  from Cons.prems have k: "k = session_id (session c)" and nk: "k \<notin> fst ` set (xs @ ys)"
    and ok: "pendingOk (xs @ ys)"
    unfolding x append_Cons pendingOk_Cons by blast+
  have "mapDelete (session_id (session c)) ((k, c) # xs @ ys) = xs @ ys"
    using mapDelete_head [OF nk] k by simp
  with Cons.IH [OF ok] show ?case by (simp add: x)
qed

lemma delete_take:
  assumes "pendingOk q"
  shows "foldl (\<lambda>q s. mapDelete (session_id (session s)) q) q (map snd (take n q)) = drop n q"
  using delete_prefix [of "take n q" "drop n q"] assms by simp

lemma saveParsed_world:
  "saveParsed now pd ss w = w\<lparr> docFiles := savedDocs now pd ss (docFiles w) \<rparr>"
  by (induction ss arbitrary: w)
     (simp_all add: saveDocumentation_def mkBatchDoc_def split: option.splits)

lemma processTierBatch_world:
  assumes A: "processTierBatch llm now ss model w = (r, w')"
  shows "\<exists>df. w' = w\<lparr> calls := calls w @ tierCall ss model, docFiles := df \<rparr>"
proof -
  obtain r0 w0 where P: "messagesCreate llm model 4000 (BatchPrompt ss) w = (r0, w0)"
    by (cases "messagesCreate llm model 4000 (BatchPrompt ss) w")
  note W = messagesCreate_world [OF P]
  show ?thesis
  proof (cases "ss = []")
    case True
    with A have "w' = w" by (simp add: processTierBatch_def)
    then have "w' = w\<lparr> calls := calls w @ tierCall ss model, docFiles := docFiles w \<rparr>"
      by (simp add: True tierCall_def)
    then show ?thesis by blast
  next
    case False
    show ?thesis
    proof (cases r0)
      case (Inl e)
      with A P False have "w' = w0" by (simp add: processTierBatch_def)
      then have "w' = w\<lparr> calls := calls w @ tierCall ss model, docFiles := docFiles w \<rparr>"
        unfolding W using False by (simp add: tierCall_def)
      then show ?thesis by blast
    next
      case (Inr t)
      with A P False have w': "w' = saveParsed now (parseBatchResponse t ss) ss w0"
        by (simp add: processTierBatch_def)
      have "w' = w\<lparr> calls := calls w @ tierCall ss model,
                     docFiles := savedDocs now (parseBatchResponse t ss) ss (docFiles w) \<rparr>"
        unfolding w' saveParsed_world W using False by (simp add: tierCall_def)
      then show ?thesis by blast
    qed
  qed
qed

lemma tierCall_Nil [simp]: "tierCall [] m = []"
  by (simp add: tierCall_def)

lemma processBatch_world:
  assumes "processBatch cfg llm now w = (r, w')"
  shows "\<exists>df. w' = w\<lparr> batchTimer := False,
               pendingQueue := foldl (\<lambda>q s. mapDelete (session_id (session s)) q)
                                 (pendingQueue w) (takeBatch cfg w),
               calls := calls w @ tierCalls cfg (takeBatch cfg w),
               docFiles := df \<rparr>"
proof -
  let ?ss = "takeBatch cfg w"
  let ?w2 = "w\<lparr> batchTimer := False,
               pendingQueue := foldl (\<lambda>q s. mapDelete (session_id (session s)) q)
                                 (pendingQueue w) ?ss \<rparr>"
  have tb: "takeBatch cfg (w\<lparr>batchTimer := False\<rparr>) = ?ss" by (simp add: takeBatch_def)
  show ?thesis
  proof (cases "?ss = []")
    case True
    have "snd (processBatch cfg llm now w) = ?w2"
      using True tb by (simp add: processBatch_def Let_def)
    with assms have "w' = ?w2" by simp
    then have "w' = ?w2\<lparr> calls := calls w @ tierCalls cfg ?ss, docFiles := docFiles w \<rparr>"
      by (simp add: True tierCalls_def basicTier_def premiumTier_def)
    then show ?thesis by blast
  next
    case False
    obtain r1 w3 where P1: "processTierBatch llm now (basicTier ?ss) (basicModel cfg) ?w2 = (r1, w3)"
      by (cases "processTierBatch llm now (basicTier ?ss) (basicModel cfg) ?w2")
    obtain r2 w4 where P2: "processTierBatch llm now (premiumTier ?ss) (premiumModel cfg) w3 = (r2, w4)"
      by (cases "processTierBatch llm now (premiumTier ?ss) (premiumModel cfg) w3")
    from assms False tb P1 P2 have w': "w' = w4"
      by (simp add: processBatch_def Let_def)
    from processTierBatch_world [OF P1] obtain df3 where
      W3: "w3 = ?w2\<lparr> calls := calls ?w2 @ tierCall (basicTier ?ss) (basicModel cfg), docFiles := df3 \<rparr>"
      by blast
    from processTierBatch_world [OF P2] obtain df4 where
      W4: "w4 = w3\<lparr> calls := calls w3 @ tierCall (premiumTier ?ss) (premiumModel cfg), docFiles := df4 \<rparr>"
      by blast
    have "w4 = ?w2\<lparr> calls := calls w @ tierCalls cfg ?ss, docFiles := df4 \<rparr>"
      by (subst W4, unfold W3) (simp add: tierCalls_def)
    then show ?thesis unfolding w' by blast
  qed
qed

lemma flush_pending:
  assumes "pendingOk (pendingQueue w)"
  shows "pendingQueue (snd (flush cfg llm now w)) = drop (batchPrefix cfg w) (pendingQueue w)"
proof (cases "pendingQueue w = []")
  case True
  then show ?thesis by (simp add: flush_def)
next
  case False
  obtain r w' where P: "processBatch cfg llm now w = (r, w')"
    by (cases "processBatch cfg llm now w")
  from processBatch_world [OF P] obtain df where
    "w' = w\<lparr> batchTimer := False,
               pendingQueue := foldl (\<lambda>q s. mapDelete (session_id (session s)) q)
                                 (pendingQueue w) (takeBatch cfg w),
               calls := calls w @ tierCalls cfg (takeBatch cfg w),
               docFiles := df \<rparr>" by blast
  then have "pendingQueue w' = foldl (\<lambda>q s. mapDelete (session_id (session s)) q)
                                 (pendingQueue w) (takeBatch cfg w)" by simp
  also have "\<dots> = drop (batchPrefix cfg w) (pendingQueue w)"
    unfolding takeBatch_prefix by (rule delete_take [OF assms])
  finally show ?thesis using False P by (simp add: flush_def)
qed

lemma flush_calls:
  "calls (snd (flush cfg llm now w)) = calls w @ tierCalls cfg (takeBatch cfg w)"
proof (cases "pendingQueue w = []")
  case True
  then show ?thesis by (simp add: flush_def takeBatch_def slice0_def tierCalls_def basicTier_def premiumTier_def)
next
  case False
  obtain r w' where P: "processBatch cfg llm now w = (r, w')"
    by (cases "processBatch cfg llm now w")
  from processBatch_world [OF P] obtain df where
    "w' = w\<lparr> batchTimer := False,
               pendingQueue := foldl (\<lambda>q s. mapDelete (session_id (session s)) q)
                                 (pendingQueue w) (takeBatch cfg w),
               calls := calls w @ tierCalls cfg (takeBatch cfg w),
               docFiles := df \<rparr>" by blast
  then have "calls w' = calls w @ tierCalls cfg (takeBatch cfg w)" by simp
  then show ?thesis using False P by (simp add: flush_def)
qed

lemma tier_partition:
  "mset (basicTier ss) + mset (premiumTier ss) = mset ss"
  "set (basicTier ss) \<inter> set (premiumTier ss) = {}"
  by (auto simp: basicTier_def premiumTier_def multiset_eq_iff)

lemma mapSet_new: "k \<notin> fst ` set q \<Longrightarrow> mapSet k v q = q @ [(k, v)]"
  by (induction q) auto

lemma mapSet_keys: "k \<in> fst ` set q \<Longrightarrow> map fst (mapSet k v q) = map fst q"
  by (induction q) force+

lemma mapSet_length: "k \<in> fst ` set q \<Longrightarrow> length (mapSet k v q) = length q"
  using mapSet_keys [of k q v] by (metis length_map)

lemma mapSet_get: "mapGet (mapSet k v q) k = Some v"
  by (induction q) (auto simp: mapGet_def)


lemma mapSet_set: "set (mapSet k v q) \<subseteq> insert (k, v) (set q)"
  by (induction q) (auto split: if_splits)

lemma mapSet_keyset: "fst ` set (mapSet k v q) = insert k (fst ` set q)"
  by (induction k v q rule: mapSet.induct) (simp_all add: insert_commute)

lemma mapSet_distinct: "distinct (map fst q) \<Longrightarrow> distinct (map fst (mapSet k v q))"
  by (induction q) (auto simp: mapSet_keyset)

lemma pendingOk_mapSet:
  assumes "pendingOk q"
  shows "pendingOk (mapSet (session_id (session c)) c q)"
  using assms mapSet_set [of "session_id (session c)" c q]
  by (auto simp: pendingOk_def mapSet_distinct)

lemma queueSession_world:
  assumes "queueSession cfg llm now c w = (r, w')"
  shows "\<exists>df bt. w' = w\<lparr>
      calls := calls w @ [QueueSession (session_id (session c))]
        @ (if batchSize cfg \<le> int (length (mapSet (session_id (session c)) c (pendingQueue w)))
           then tierCalls cfg (slice0 (batchSize cfg)
                  (map snd (mapSet (session_id (session c)) c (pendingQueue w))))
           else []),
      pendingQueue :=
        (if batchSize cfg \<le> int (length (mapSet (session_id (session c)) c (pendingQueue w)))
         then foldl (\<lambda>q s. mapDelete (session_id (session s)) q)
                (mapSet (session_id (session c)) c (pendingQueue w))
                (slice0 (batchSize cfg)
                  (map snd (mapSet (session_id (session c)) c (pendingQueue w))))
         else mapSet (session_id (session c)) c (pendingQueue w)),
      batchTimer := bt, docFiles := df \<rparr>"
proof -
  let ?i = "session_id (session c)"
  let ?q = "mapSet ?i c (pendingQueue w)"
  let ?w1 = "w\<lparr> calls := calls w @ [QueueSession ?i], pendingQueue := ?q \<rparr>"
  show ?thesis
  proof (cases "batchSize cfg \<le> int (length ?q)")
    case True
    with assms have P: "processBatch cfg llm now ?w1 = (r, w')"
      by (simp add: queueSession_def Let_def)
    from processBatch_world [OF P] obtain df where
      "w' = ?w1\<lparr> batchTimer := False,
               pendingQueue := foldl (\<lambda>q s. mapDelete (session_id (session s)) q)
                                 (pendingQueue ?w1) (takeBatch cfg ?w1),
               calls := calls ?w1 @ tierCalls cfg (takeBatch cfg ?w1),
               docFiles := df \<rparr>" by blast
    then have "w' = w\<lparr> calls := calls w @ [QueueSession ?i] @ tierCalls cfg (slice0 (batchSize cfg) (map snd ?q)),
         pendingQueue := foldl (\<lambda>q s. mapDelete (session_id (session s)) q) ?q
                (slice0 (batchSize cfg) (map snd ?q)),
         batchTimer := False, docFiles := df \<rparr>"
      by (simp add: takeBatch_def)
    with True show ?thesis by (intro exI [of _ df] exI [of _ False]) simp
  next
    case False
    have "snd (queueSession cfg llm now c w) = ?w1\<lparr> batchTimer := True \<rparr>"
      using False by (simp add: queueSession_def Let_def)
    with assms have "w' = w\<lparr> calls := calls w @ [QueueSession ?i] @ [],
         pendingQueue := ?q, batchTimer := True, docFiles := docFiles w \<rparr>"
      by simp
    with False show ?thesis by (intro exI [of _ "docFiles w"] exI [of _ True]) simp
  qed
qed

lemma queueSession_below:
  assumes "int (length (mapSet (session_id (session c)) c (pendingQueue w))) < batchSize cfg"
  shows "pendingQueue (snd (queueSession cfg llm now c w))
           = mapSet (session_id (session c)) c (pendingQueue w)"
    and "calls (snd (queueSession cfg llm now c w))
           = calls w @ [QueueSession (session_id (session c))]"
    and "fst (queueSession cfg llm now c w) = Inr ()"
  using assms by (simp_all add: queueSession_def Let_def)

lemma queueSession_reaches:
  assumes ok: "pendingOk (pendingQueue w)"
    and full: "int (length (mapSet (session_id (session c)) c (pendingQueue w))) = batchSize cfg"
  shows "pendingQueue (snd (queueSession cfg llm now c w)) = []"
    and "calls (snd (queueSession cfg llm now c w))
           = calls w @ [QueueSession (session_id (session c))]
             @ tierCalls cfg (map snd (mapSet (session_id (session c)) c (pendingQueue w)))"
proof -
  let ?q = "mapSet (session_id (session c)) c (pendingQueue w)"
  obtain r w' where Q: "queueSession cfg llm now c w = (r, w')"
    by (cases "queueSession cfg llm now c w")
  have sl: "slice0 (batchSize cfg) (map snd ?q) = map snd (take (length ?q) ?q)"
    using full by (simp add: slice0_def)
  have del: "foldl (\<lambda>q s. mapDelete (session_id (session s)) q) ?q (map snd (take (length ?q) ?q))
      = drop (length ?q) ?q"
    by (rule delete_take [OF pendingOk_mapSet [OF ok]])
  from queueSession_world [OF Q] obtain df bt where
    W: "w' = w\<lparr> calls := calls w @ [QueueSession (session_id (session c))]
                  @ tierCalls cfg (slice0 (batchSize cfg) (map snd ?q)),
                pendingQueue := foldl (\<lambda>q s. mapDelete (session_id (session s)) q) ?q
                   (slice0 (batchSize cfg) (map snd ?q)),
                batchTimer := bt, docFiles := df \<rparr>"
    using full by auto
  from W have "pendingQueue w' = foldl (\<lambda>q s. mapDelete (session_id (session s)) q) ?q
                   (slice0 (batchSize cfg) (map snd ?q))" by simp
  with del sl have "pendingQueue w' = []" by simp
  with Q show "pendingQueue (snd (queueSession cfg llm now c w)) = []" by simp
  from W have "calls w' = calls w @ [QueueSession (session_id (session c))]
                  @ tierCalls cfg (slice0 (batchSize cfg) (map snd ?q))" by simp
  with sl Q show "calls (snd (queueSession cfg llm now c w))
           = calls w @ [QueueSession (session_id (session c))] @ tierCalls cfg (map snd ?q)"
    by simp
qed

lemma processBatch_pending:
  assumes "pendingOk (pendingQueue w)"
  shows "pendingQueue (snd (processBatch cfg llm now w)) = drop (batchPrefix cfg w) (pendingQueue w)"
proof -
  obtain r w' where P: "processBatch cfg llm now w = (r, w')"
    by (cases "processBatch cfg llm now w")
  from processBatch_world [OF P] obtain df where
    "w' = w\<lparr> batchTimer := False,
               pendingQueue := foldl (\<lambda>q s. mapDelete (session_id (session s)) q)
                                 (pendingQueue w) (takeBatch cfg w),
               calls := calls w @ tierCalls cfg (takeBatch cfg w),
               docFiles := df \<rparr>" by blast
  then have "pendingQueue w' = foldl (\<lambda>q s. mapDelete (session_id (session s)) q)
                                 (pendingQueue w) (takeBatch cfg w)" by simp
  also have "\<dots> = drop (batchPrefix cfg w) (pendingQueue w)"
    unfolding takeBatch_prefix by (rule delete_take [OF assms])
  finally show ?thesis using P by simp
qed

lemma pendingOk_Nil [simp]: "pendingOk []"
  by (simp add: pendingOk_def)

lemma processBatch_drains:
  assumes "pendingOk (pendingQueue w)" and "int (length (pendingQueue w)) \<le> batchSize cfg"
  shows "pendingQueue (snd (processBatch cfg llm now w)) = []"
  using processBatch_pending [OF assms(1), of cfg llm now] assms(2)
  by (simp add: batchPrefix_def)

lemma queueSession_invariant:
  assumes ok: "pendingOk (pendingQueue w)"
    and below: "int (length (pendingQueue w)) < batchSize cfg"
  shows "pendingOk (pendingQueue (snd (queueSession cfg llm now c w)))
    \<and> int (length (pendingQueue (snd (queueSession cfg llm now c w)))) < batchSize cfg"
proof -
  let ?i = "session_id (session c)"
  let ?q = "mapSet ?i c (pendingQueue w)"
  let ?w' = "snd (queueSession cfg llm now c w)"
  have okq: "pendingOk ?q" by (rule pendingOk_mapSet [OF ok])
  have len: "length ?q \<le> Suc (length (pendingQueue w))"
  proof (cases "?i \<in> fst ` set (pendingQueue w)")
    case True
    then show ?thesis by (simp add: mapSet_length)
  next
    case False
    then show ?thesis by (simp add: mapSet_new)
  qed
  show ?thesis
  proof (cases "int (length ?q) < batchSize cfg")
    case True
    from queueSession_below(1) [OF True] have "pendingQueue ?w' = ?q" .
    with okq True show ?thesis by simp
  next
    case False
    with len below have "int (length ?q) = batchSize cfg" by simp
    from queueSession_reaches(1) [OF ok this] below show ?thesis by simp
  qed
qed

lemma applyCall_invariant:
  assumes ok: "pendingOk (pendingQueue w)"
    and below: "int (length (pendingQueue w)) < batchSize cfg"
  shows "pendingOk (pendingQueue (applyCall cfg llm w a))
    \<and> int (length (pendingQueue (applyCall cfg llm w a))) < batchSize cfg"
proof (cases a)
  case (QueueCall now c)
  then show ?thesis using queueSession_invariant [OF ok below] by simp
next
  case (TimerCall now)
  from below have le: "int (length (pendingQueue w)) \<le> batchSize cfg" by simp
  from processBatch_drains [OF ok le, of llm now] ok below TimerCall
  show ?thesis by (simp add: batchTimerFires_def)
next
  case (FlushCall now)
  from below have le: "int (length (pendingQueue w)) \<le> batchSize cfg" by simp
  from processBatch_drains [OF ok le, of llm now] ok below FlushCall
  show ?thesis by (simp add: flush_def)
qed

lemma runCalls_snoc:
  "runCalls cfg llm (cs @ [a]) w = applyCall cfg llm (runCalls cfg llm cs w) a"
  by (simp add: runCalls_def)

lemma runCalls_invariant:
  assumes pos: "0 < batchSize cfg" and e: "pendingQueue w = []"
  shows "pendingOk (pendingQueue (runCalls cfg llm cs w))
    \<and> int (length (pendingQueue (runCalls cfg llm cs w))) < batchSize cfg"
proof (induction cs rule: rev_induct)
  case Nil
  then show ?case using pos e by (simp add: runCalls_def)
next
  case (snoc a cs)
  then show ?case unfolding runCalls_snoc using applyCall_invariant by blast
qed

lemma queueAll_snoc:
  "queueAll cfg llm (tcs @ [(t, c)]) w = snd (queueSession cfg llm t c (queueAll cfg llm tcs w))"
  by (simp add: queueAll_def runCalls_def)

lemma pendingOk_entries:
  "distinct (map (\<lambda>c. session_id (session c)) cs) \<Longrightarrow> pendingOk (map pendingEntry cs)"
  by (simp add: pendingOk_def pendingEntry_def comp_def)

lemma queueAll_pending:
  assumes b: "0 < batchSize cfg" and e: "pendingQueue w = []"
  shows "distinct (map (\<lambda>tc. session_id (session (snd tc))) tcs) \<Longrightarrow>
     pendingQueue (queueAll cfg llm tcs w)
       = map pendingEntry (drop (length tcs - length tcs mod nat (batchSize cfg)) (map snd tcs))"
proof (induction tcs rule: rev_induct)
  case Nil
  then show ?case using e by (simp add: queueAll_def runCalls_def)
next
  case (snoc tc tcs)
  obtain t c where tc: "tc = (t, c)" by (cases tc)
  let ?cs = "map snd tcs"
  let ?b = "nat (batchSize cfg)"
  let ?n = "length tcs"
  let ?w = "queueAll cfg llm tcs w"
  let ?tl = "drop (?n - ?n mod ?b) ?cs"
  from snoc.prems have d: "distinct (map (\<lambda>tc. session_id (session (snd tc))) tcs)"
    and new: "session_id (session c) \<notin> (\<lambda>c. session_id (session c)) ` set ?cs"
    by (auto simp: tc)
  from d have d': "distinct (map (\<lambda>c. session_id (session c)) ?cs)" by (simp add: comp_def)
  from snoc.IH [OF d] have q: "pendingQueue ?w = map pendingEntry ?tl" .
  have bpos: "0 < ?b" using b by simp
  have len: "length (pendingQueue ?w) = ?n mod ?b" unfolding q by simp
  from distinct_drop [OF d', of "?n - ?n mod ?b"]
  have dtl: "distinct (map (\<lambda>c. session_id (session c)) ?tl)" unfolding drop_map .
  have ok: "pendingOk (pendingQueue ?w)"
    unfolding q by (rule pendingOk_entries [OF dtl])
  have "fst ` set (pendingQueue ?w) \<subseteq> (\<lambda>c. session_id (session c)) ` set ?cs"
    unfolding q by (auto simp: pendingEntry_def dest: in_set_dropD)
  with new have nk: "session_id (session c) \<notin> fst ` set (pendingQueue ?w)" by blast
  have ms: "mapSet (session_id (session c)) c (pendingQueue ?w) = map pendingEntry (?tl @ [c])"
    using mapSet_new [OF nk, of c] by (simp add: q pendingEntry_def)
  have lt: "?n mod ?b < ?b" using bpos by simp
  show ?case
  proof (cases "Suc (?n mod ?b) = ?b")
    case True
    then have "int (length (mapSet (session_id (session c)) c (pendingQueue ?w))) = batchSize cfg"
      unfolding ms using b by simp
    from queueSession_reaches(1) [OF ok this]
    have "pendingQueue (queueAll cfg llm (tcs @ [tc]) w) = []"
      by (simp add: queueAll_snoc tc)
    moreover have "Suc ?n mod ?b = 0" using True by (simp add: mod_Suc)
    ultimately show ?thesis by simp
  next
    case False
    with lt have "Suc (?n mod ?b) < ?b" by simp
    then have "int (length (mapSet (session_id (session c)) c (pendingQueue ?w))) < batchSize cfg"
      unfolding ms by simp
    from queueSession_below(1) [OF this]
    have "pendingQueue (queueAll cfg llm (tcs @ [tc]) w) = map pendingEntry (?tl @ [c])"
      by (simp add: queueAll_snoc ms tc)
    moreover have "Suc ?n mod ?b = Suc (?n mod ?b)" using False by (simp add: mod_Suc)
    moreover have "?n mod ?b \<le> ?n" by simp
    ultimately show ?thesis by (simp add: Suc_diff_le tc)
  qed
qed

text \<open>
  Claim C4, as the code has it.  The batch size is at least 1, and the state is one
  the accumulator reaches from an empty pending map by any calls of \<open>queueSession\<close>, of
  the timer callback and of \<open>flush\<close>.  There a session with a new id is appended; when
  that makes the size reach \<open>batchSize\<close>, the batch is processed within the call, over
  all the accumulated sessions, and nothing is pending afterwards.  A session whose
  id is pending replaces the entry under that id: same keys, same size, the new
  context stored, no batch processed.  Every such state has distinct keys and fewer
  than \<open>batchSize\<close> pending sessions, and after any sequence of \<open>queueSession\<close> calls
  with distinct ids from the empty map exactly the last \<open>length mod batchSize\<close>
  sessions are pending.
\<close>

theorem queueSession_batch_size_trigger:
  assumes pos: "0 < batchSize cfg"
    and start: "pendingQueue w0 = []"
    and reached: "w = runCalls cfg llm cs w0"
  shows
    "(session_id (session c) \<notin> fst ` set (pendingQueue w)
        \<and> int (length (pendingQueue w)) + 1 < batchSize cfg \<longrightarrow>
          pendingQueue (snd (queueSession cfg llm now c w))
            = pendingQueue w @ [(session_id (session c), c)]
          \<and> calls (snd (queueSession cfg llm now c w))
              = calls w @ [QueueSession (session_id (session c))])
     \<and> (session_id (session c) \<notin> fst ` set (pendingQueue w)
        \<and> int (length (pendingQueue w)) + 1 = batchSize cfg \<longrightarrow>
          pendingQueue (snd (queueSession cfg llm now c w)) = []
          \<and> calls (snd (queueSession cfg llm now c w))
              = calls w @ [QueueSession (session_id (session c))]
                @ tierCalls cfg (map snd (pendingQueue w) @ [c]))
     \<and> (session_id (session c) \<in> fst ` set (pendingQueue w) \<longrightarrow>
          map fst (pendingQueue (snd (queueSession cfg llm now c w))) = map fst (pendingQueue w)
          \<and> mapGet (pendingQueue (snd (queueSession cfg llm now c w))) (session_id (session c))
              = Some c
          \<and> calls (snd (queueSession cfg llm now c w))
              = calls w @ [QueueSession (session_id (session c))])
     \<and> pendingOk (pendingQueue w)
     \<and> int (length (pendingQueue w)) < batchSize cfg
     \<and> (\<forall>tcs. distinct (map (\<lambda>tc. session_id (session (snd tc))) tcs) \<longrightarrow>
          pendingQueue (queueAll cfg llm tcs w0)
            = map pendingEntry
                (drop (length tcs - length tcs mod nat (batchSize cfg)) (map snd tcs)))"
proof -
  let ?i = "session_id (session c)"
  let ?q = "mapSet ?i c (pendingQueue w)"
  let ?w' = "snd (queueSession cfg llm now c w)"
  from runCalls_invariant [OF pos start, of llm cs]
  have ok: "pendingOk (pendingQueue w)" and below: "int (length (pendingQueue w)) < batchSize cfg"
    unfolding reached by blast+
  have A: "?i \<notin> fst ` set (pendingQueue w) \<Longrightarrow> int (length (pendingQueue w)) + 1 < batchSize cfg
      \<Longrightarrow> pendingQueue ?w' = pendingQueue w @ [(?i, c)] \<and> calls ?w' = calls w @ [QueueSession ?i]"
  proof -
    assume n: "?i \<notin> fst ` set (pendingQueue w)" and l: "int (length (pendingQueue w)) + 1 < batchSize cfg"
    have "int (length ?q) < batchSize cfg" using l by (simp add: mapSet_new [OF n])
    from queueSession_below(1,2) [OF this] show ?thesis by (simp add: mapSet_new [OF n])
  qed
  have B: "?i \<notin> fst ` set (pendingQueue w) \<Longrightarrow> int (length (pendingQueue w)) + 1 = batchSize cfg
      \<Longrightarrow> pendingQueue ?w' = []
        \<and> calls ?w' = calls w @ [QueueSession ?i] @ tierCalls cfg (map snd (pendingQueue w) @ [c])"
  proof -
    assume n: "?i \<notin> fst ` set (pendingQueue w)" and l: "int (length (pendingQueue w)) + 1 = batchSize cfg"
    have "int (length ?q) = batchSize cfg" using l by (simp add: mapSet_new [OF n])
    from queueSession_reaches [OF ok this] show ?thesis by (simp add: mapSet_new [OF n])
  qed
  have C: "?i \<in> fst ` set (pendingQueue w) \<Longrightarrow>
      pendingQueue ?w' = ?q \<and> calls ?w' = calls w @ [QueueSession ?i]"
  proof -
    assume m: "?i \<in> fst ` set (pendingQueue w)"
    have "int (length ?q) < batchSize cfg" using below by (simp add: mapSet_length [OF m])
    from queueSession_below(1,2) [OF this] show ?thesis by simp
  qed
  have E: "\<forall>tcs. distinct (map (\<lambda>tc. session_id (session (snd tc))) tcs) \<longrightarrow>
          pendingQueue (queueAll cfg llm tcs w0)
            = map pendingEntry
                (drop (length tcs - length tcs mod nat (batchSize cfg)) (map snd tcs))"
    using queueAll_pending [OF pos start] by blast
  from C have C': "?i \<in> fst ` set (pendingQueue w) \<longrightarrow>
          map fst (pendingQueue ?w') = map fst (pendingQueue w)
          \<and> mapGet (pendingQueue ?w') ?i = Some c
          \<and> calls ?w' = calls w @ [QueueSession ?i]"
    by (simp add: mapSet_keys mapSet_get)
  from A B C' ok below E show ?thesis by blast
qed

text \<open>
  Claim C4 as stated fails for a batch size below 1, which \<open>loadConfig\<close> accepts.  With
  \<open>BATCH_SIZE=0\<close> the first \<open>queueSession\<close> reaches the size and runs \<open>processBatch\<close>
  (no timer is armed), which takes \<open>slice(0, 0)\<close>: the session is still pending after
  the flush.  With \<open>BATCH_SIZE=-1\<close> every call runs \<open>processBatch\<close>, which takes all
  pending sessions but the last: after three calls the third session is pending.
\<close>

theorem batch_size_below_one_leaves_sessions_pending:
  "loadConfig (exampleEnv 0 3) = Inr (exampleConfig 0 3)
   \<and> batchSize (exampleConfig 0 3)
       \<le> int (length (mapSet ''a'' (exampleContext ''a'' None) (pendingQueue emptyWorld)))
   \<and> pendingQueue (snd (queueSession (exampleConfig 0 3) failingLlm 0
        (exampleContext ''a'' None) emptyWorld)) = [(''a'', exampleContext ''a'' None)]
   \<and> batchTimer (snd (queueSession (exampleConfig 0 3) failingLlm 0
        (exampleContext ''a'' None) emptyWorld)) = False
   \<and> loadConfig (exampleEnv (- 1) 3) = Inr (exampleConfig (- 1) 3)
   \<and> pendingQueue (queueAll (exampleConfig (- 1) 3) failingLlm
        [(0, exampleContext ''a'' None), (1, exampleContext ''b'' None),
         (2, exampleContext ''c'' None)] emptyWorld) = [(''c'', exampleContext ''c'' None)]
   \<and> calls (queueAll (exampleConfig (- 1) 3) failingLlm
        [(0, exampleContext ''a'' None), (1, exampleContext ''b'' None),
         (2, exampleContext ''c'' None)] emptyWorld)
       = [QueueSession ''a'', QueueSession ''b'',
          MessagesCreate ''claude-3-5-haiku-20241022'' 4000 (BatchPrompt [exampleContext ''a'' None]),
          QueueSession ''c'',
          MessagesCreate ''claude-3-5-haiku-20241022'' 4000 (BatchPrompt [exampleContext ''b'' None])]"
proof -
  have 1: "loadConfig (exampleEnv 0 3) = Inr (exampleConfig 0 3)"
    by (simp add: loadConfig_def exampleEnv_def exampleConfig_def getEnvOrThrow_def
        getEnvOrDefault_def getEnvIntOrDefault_def)
  have 2: "loadConfig (exampleEnv (- 1) 3) = Inr (exampleConfig (- 1) 3)"
    by (simp add: loadConfig_def exampleEnv_def exampleConfig_def getEnvOrThrow_def
        getEnvOrDefault_def getEnvIntOrDefault_def)
  have 3: "batchSize (exampleConfig 0 3)
       \<le> int (length (mapSet ''a'' (exampleContext ''a'' None) (pendingQueue emptyWorld)))"
    by (simp add: exampleConfig_def emptyWorld_def)
  have 4: "pendingQueue (snd (queueSession (exampleConfig 0 3) failingLlm 0
        (exampleContext ''a'' None) emptyWorld)) = [(''a'', exampleContext ''a'' None)]
   \<and> batchTimer (snd (queueSession (exampleConfig 0 3) failingLlm 0
        (exampleContext ''a'' None) emptyWorld)) = False"
    by (simp add: emptyWorld_def exampleContext_def exampleSession_def exampleConfig_def
        queueSession_def processBatch_def takeBatch_def slice0_def Let_def)
  have 5: "pendingQueue (queueAll (exampleConfig (- 1) 3) failingLlm
        [(0, exampleContext ''a'' None), (1, exampleContext ''b'' None),
         (2, exampleContext ''c'' None)] emptyWorld) = [(''c'', exampleContext ''c'' None)]
   \<and> calls (queueAll (exampleConfig (- 1) 3) failingLlm
        [(0, exampleContext ''a'' None), (1, exampleContext ''b'' None),
         (2, exampleContext ''c'' None)] emptyWorld)
       = [QueueSession ''a'', QueueSession ''b'',
          MessagesCreate ''claude-3-5-haiku-20241022'' 4000 (BatchPrompt [exampleContext ''a'' None]),
          QueueSession ''c'',
          MessagesCreate ''claude-3-5-haiku-20241022'' 4000 (BatchPrompt [exampleContext ''b'' None])]"
    by (simp add: queueAll_def runCalls_def emptyWorld_def exampleContext_def exampleSession_def
        exampleConfig_def queueSession_def processBatch_def takeBatch_def slice0_def
        mapDelete_def basicTier_def premiumTier_def processTierBatch_def messagesCreate_def
        failingLlm_def Let_def)
  from 1 2 3 4 5 show ?thesis by blast
qed

text \<open>
  The statement above at batch size two: after one session is queued, the second
  session with a new id triggers the flush, and of three sessions queued from an
  empty map the third remains.
\<close>

theorem queueSession_batch_size_trigger_witness:
  "0 < batchSize (exampleConfig 2 3)
   \<and> pendingQueue emptyWorld = []
   \<and> pendingQueue (runCalls (exampleConfig 2 3) failingLlm
        [QueueCall 0 (exampleContext ''a'' None)] emptyWorld) = [(''a'', exampleContext ''a'' None)]
   \<and> pendingQueue (snd (queueSession (exampleConfig 2 3) failingLlm 1 (exampleContext ''b'' None)
        (runCalls (exampleConfig 2 3) failingLlm
           [QueueCall 0 (exampleContext ''a'' None)] emptyWorld))) = []
   \<and> calls (snd (queueSession (exampleConfig 2 3) failingLlm 1 (exampleContext ''b'' None)
        (runCalls (exampleConfig 2 3) failingLlm
           [QueueCall 0 (exampleContext ''a'' None)] emptyWorld)))
       = [QueueSession ''a'', QueueSession ''b'',
          MessagesCreate ''claude-3-5-haiku-20241022'' 4000
            (BatchPrompt [exampleContext ''a'' None, exampleContext ''b'' None])]
   \<and> pendingQueue (queueAll (exampleConfig 2 3) failingLlm
        [(0, exampleContext ''a'' None), (1, exampleContext ''b'' None),
         (2, exampleContext ''c'' None)] emptyWorld) = [pendingEntry (exampleContext ''c'' None)]"
proof -
  let ?cfg = "exampleConfig 2 3"
  let ?w = "runCalls ?cfg failingLlm [QueueCall 0 (exampleContext ''a'' None)] emptyWorld"
  let ?c = "exampleContext ''b'' None"
  let ?tcs = "[(0::int, exampleContext ''a'' None), (1, exampleContext ''b'' None),
         (2, exampleContext ''c'' None)]"
  have pos: "0 < batchSize ?cfg" by (simp add: exampleConfig_def)
  have start: "pendingQueue emptyWorld = []" by (simp add: emptyWorld_def)
  have pq: "pendingQueue ?w = [(''a'', exampleContext ''a'' None)]"
    by (simp add: runCalls_def queueSession_def Let_def emptyWorld_def exampleConfig_def
        exampleContext_def exampleSession_def)
  have cw: "calls ?w = [QueueSession ''a'']"
    by (simp add: runCalls_def queueSession_def Let_def emptyWorld_def exampleConfig_def
        exampleContext_def exampleSession_def)
  have sid: "session_id (session ?c) = ''b''"
    by (simp add: exampleContext_def exampleSession_def)
  have new: "''b'' \<notin> fst ` set (pendingQueue ?w)" unfolding pq by simp
  have full: "int (length (pendingQueue ?w)) + 1 = batchSize ?cfg"
    unfolding pq by (simp add: exampleConfig_def)
  have tc: "calls ?w @ [QueueSession ''b''] @ tierCalls ?cfg (map snd (pendingQueue ?w) @ [?c])
      = [QueueSession ''a'', QueueSession ''b'',
          MessagesCreate ''claude-3-5-haiku-20241022'' 4000
            (BatchPrompt [exampleContext ''a'' None, exampleContext ''b'' None])]"
    unfolding pq cw
    by (simp add: exampleConfig_def tierCalls_def tierCall_def
        basicTier_def premiumTier_def exampleContext_def exampleSession_def)
  have d: "distinct (map (\<lambda>tc. session_id (session (snd tc))) ?tcs)"
    by (simp add: exampleContext_def exampleSession_def)
  note T = queueSession_batch_size_trigger [OF pos start refl, of ?c failingLlm
      "[QueueCall 0 (exampleContext ''a'' None)]" 1, unfolded sid]
  from T new full
  have 1: "pendingQueue (snd (queueSession ?cfg failingLlm 1 ?c ?w)) = []
      \<and> calls (snd (queueSession ?cfg failingLlm 1 ?c ?w))
          = calls ?w @ [QueueSession ''b''] @ tierCalls ?cfg (map snd (pendingQueue ?w) @ [?c])"
    by blast
  from T d
  have "pendingQueue (queueAll ?cfg failingLlm ?tcs emptyWorld)
      = map pendingEntry (drop (length ?tcs - length ?tcs mod nat (batchSize ?cfg)) (map snd ?tcs))"
    by blast
  then have 2: "pendingQueue (queueAll ?cfg failingLlm ?tcs emptyWorld)
      = [pendingEntry (exampleContext ''c'' None)]"
    by (simp add: exampleConfig_def)
  from pos start pq 1 tc 2 show ?thesis by simp
qed

lemma processBatch_calls:
  "calls (snd (processBatch cfg llm now w)) = calls w @ tierCalls cfg (takeBatch cfg w)"
proof -
  obtain r w' where P: "processBatch cfg llm now w = (r, w')"
    by (cases "processBatch cfg llm now w")
  from processBatch_world [OF P] obtain df where
    "w' = w\<lparr> batchTimer := False,
               pendingQueue := foldl (\<lambda>q s. mapDelete (session_id (session s)) q)
                                 (pendingQueue w) (takeBatch cfg w),
               calls := calls w @ tierCalls cfg (takeBatch cfg w),
               docFiles := df \<rparr>" by blast
  then have "calls w' = calls w @ tierCalls cfg (takeBatch cfg w)" by simp
  with P show ?thesis by simp
qed

text \<open>
  Claim C9.  The sessions one \<open>processBatch\<close> takes are split into the two tier groups
  without loss or duplication: a session with tier \<open>'premium'\<close> is in the premium group
  only, a session with any other tier or none is in the basic group only.  One request
  is sent for each group that is not empty, the basic one first, so a flush sends at
  most two requests.
\<close>

theorem tier_groups_partition_the_batch:
  "mset (basicTier (takeBatch cfg w)) + mset (premiumTier (takeBatch cfg w))
     = mset (takeBatch cfg w)
   \<and> (\<forall>s \<in> set (takeBatch cfg w).
        (tier (session s) = Some ''premium'' \<longrightarrow>
           s \<in> set (premiumTier (takeBatch cfg w)) \<and> s \<notin> set (basicTier (takeBatch cfg w)))
        \<and> (tier (session s) \<noteq> Some ''premium'' \<longrightarrow>
           s \<in> set (basicTier (takeBatch cfg w)) \<and> s \<notin> set (premiumTier (takeBatch cfg w))))
   \<and> calls (snd (processBatch cfg llm now w))
       = calls w
         @ (if basicTier (takeBatch cfg w) = [] then []
            else [MessagesCreate (basicModel cfg) 4000 (BatchPrompt (basicTier (takeBatch cfg w)))])
         @ (if premiumTier (takeBatch cfg w) = [] then []
            else [MessagesCreate (premiumModel cfg) 4000
                    (BatchPrompt (premiumTier (takeBatch cfg w)))])
   \<and> length (calls (snd (processBatch cfg llm now w))) \<le> length (calls w) + 2"
proof -
  have c: "calls (snd (processBatch cfg llm now w))
       = calls w
         @ (if basicTier (takeBatch cfg w) = [] then []
            else [MessagesCreate (basicModel cfg) 4000 (BatchPrompt (basicTier (takeBatch cfg w)))])
         @ (if premiumTier (takeBatch cfg w) = [] then []
            else [MessagesCreate (premiumModel cfg) 4000
                    (BatchPrompt (premiumTier (takeBatch cfg w)))])"
    by (simp add: processBatch_calls tierCalls_def tierCall_def)
  have l: "length (calls (snd (processBatch cfg llm now w))) \<le> length (calls w) + 2"
    unfolding c by simp
  have m: "\<forall>s \<in> set (takeBatch cfg w).
        (tier (session s) = Some ''premium'' \<longrightarrow>
           s \<in> set (premiumTier (takeBatch cfg w)) \<and> s \<notin> set (basicTier (takeBatch cfg w)))
        \<and> (tier (session s) \<noteq> Some ''premium'' \<longrightarrow>
           s \<in> set (basicTier (takeBatch cfg w)) \<and> s \<notin> set (premiumTier (takeBatch cfg w)))"
    by (simp add: basicTier_def premiumTier_def)
  from tier_partition(1) [of "takeBatch cfg w"] c l m show ?thesis by blast
qed

text \<open>
  The statement above at three pending sessions with no tier, tier \<open>'gold'\<close> and tier
  \<open>'premium'\<close>: the second goes to the basic group and two requests are sent.
\<close>

theorem tier_groups_witness:
  "exampleContext ''b'' (Some ''gold'')
     \<in> set (takeBatch (exampleConfig 5 3)
         (pendingWorld [exampleContext ''a'' None, exampleContext ''b'' (Some ''gold''),
            exampleContext ''c'' (Some ''premium'')]))
   \<and> tier (session (exampleContext ''b'' (Some ''gold''))) \<noteq> Some ''premium''
   \<and> exampleContext ''b'' (Some ''gold'')
     \<in> set (basicTier (takeBatch (exampleConfig 5 3)
         (pendingWorld [exampleContext ''a'' None, exampleContext ''b'' (Some ''gold''),
            exampleContext ''c'' (Some ''premium'')])))
   \<and> length (calls (snd (processBatch (exampleConfig 5 3) failingLlm 0
         (pendingWorld [exampleContext ''a'' None, exampleContext ''b'' (Some ''gold''),
            exampleContext ''c'' (Some ''premium'')])))) = 2"
proof -
  let ?cfg = "exampleConfig 5 3"
  let ?w = "pendingWorld [exampleContext ''a'' None, exampleContext ''b'' (Some ''gold''),
            exampleContext ''c'' (Some ''premium'')]"
  let ?b = "exampleContext ''b'' (Some ''gold'')"
  have tb: "takeBatch ?cfg ?w = [exampleContext ''a'' None, ?b, exampleContext ''c'' (Some ''premium'')]"
    by (simp add: takeBatch_def slice0_def exampleConfig_def pendingWorld_def emptyWorld_def)
  have mem: "?b \<in> set (takeBatch ?cfg ?w)" unfolding tb by simp
  have t: "tier (session ?b) \<noteq> Some ''premium''"
    by (simp add: exampleContext_def exampleSession_def)
  have ne: "basicTier (takeBatch ?cfg ?w) \<noteq> [] \<and> premiumTier (takeBatch ?cfg ?w) \<noteq> []"
    unfolding tb by (simp add: basicTier_def premiumTier_def exampleContext_def exampleSession_def)
  have c0: "calls ?w = []" by (simp add: pendingWorld_def emptyWorld_def)
  note T = tier_groups_partition_the_batch [of ?cfg ?w failingLlm 0]
  from T mem t have 1: "?b \<in> set (basicTier (takeBatch ?cfg ?w))" by blast
  from T have "calls (snd (processBatch ?cfg failingLlm 0 ?w))
       = calls ?w
         @ (if basicTier (takeBatch ?cfg ?w) = [] then []
            else [MessagesCreate (basicModel ?cfg) 4000 (BatchPrompt (basicTier (takeBatch ?cfg ?w)))])
         @ (if premiumTier (takeBatch ?cfg ?w) = [] then []
            else [MessagesCreate (premiumModel ?cfg) 4000
                    (BatchPrompt (premiumTier (takeBatch ?cfg ?w)))])" by blast
  with ne c0 have 2: "length (calls (snd (processBatch ?cfg failingLlm 0 ?w))) = 2" by simp
  from mem t 1 2 show ?thesis by blast
qed

section \<open>Properties of the batch response parser\<close>

lemma parseLoop_blocks:
  "parseLoop response docs = foldl storeBlock docs (sessionBlocks response)"
proof (induction response docs rule: parseLoop.induct)
  case (1 response docs)
  show ?case
  proof (cases "execSession response")
    case None
    then show ?thesis by (subst parseLoop.simps, subst sessionBlocks.simps) simp
  next
    case (Some m)
    obtain i body rest where m: "m = (i, body, rest)" by (cases m)
    have st: "storeBlock docs (i, body) = mapSet i (mkParsed i (trim body)) docs"
      by (simp add: storeBlock_def)
    from "1.IH" [OF Some [unfolded m] refl refl]
    show ?thesis
      by (subst parseLoop.simps, subst sessionBlocks.simps) (simp add: Some m st)
  qed
qed

lemma parseBatchResponse_blocks:
  "parseBatchResponse response sessions = foldl storeBlock [] (sessionBlocks response)"
  by (simp add: parseBatchResponse_def parseLoop_blocks)

lemma store_keys:
  "fst ` set (foldl storeBlock docs bs) = fst ` set docs \<union> fst ` set bs"
  by (induction bs arbitrary: docs) (auto simp: storeBlock_def mapSet_keyset)







lemma untilMarker_char:
  "\<exists>k\<le>length s. untilMarker m s = take k s
     \<and> (\<forall>j<k. \<not> startsWithCI m (drop j s))
     \<and> (k < length s \<longrightarrow> startsWithCI m (drop k s))"
proof (induction s)
  case Nil
  then show ?case by simp
next
  case (Cons c cs)
  show ?case
  proof (cases "startsWithCI m (c # cs)")
    case True
    then show ?thesis by (intro exI [of _ 0]) simp
  next
    case False
    from Cons obtain k where k: "k \<le> length cs" "untilMarker m cs = take k cs"
      "\<forall>j<k. \<not> startsWithCI m (drop j cs)" "k < length cs \<longrightarrow> startsWithCI m (drop k cs)"
      by blast
    show ?thesis
      using False k by (intro exI [of _ "Suc k"]) (auto simp: less_Suc_eq_0_disj)
  qed
qed





lemma mapGet_Some: "i \<in> fst ` set m \<Longrightarrow> mapGet m i \<noteq> None"
  by (simp add: mapGet_def map_of_eq_None_iff)












text \<open>
  The section pattern is not anchored to lines.  Where the content of a section holds
  the characters \<open>## \<close>, as in a sub-header \<open>### Details\<close>, the section ends there; and
  a header that continues after the name, as \<open>## Outcomes considered\<close>, is taken for
  the header \<open>## Outcome\<close>.
\<close>

lemma extractSection_not_anchored:
  "extractSection (''## Approach'' @ [CHR 0x0A] @ ''step 1'' @ [CHR 0x0A] @ ''### Details'')
     ''Approach'' = ''step 1'' @ [CHR 0x0A] @ ''#''"
  "extractSection (''## Outcomes considered'' @ [CHR 0x0A] @ ''x'') ''Outcome''
     = ''s considered'' @ [CHR 0x0A] @ ''x''"
  by code_simp+

lemma processTierBatch_other_docs:
  assumes "i \<notin> (\<lambda>s. session_id (session s)) ` set ss"
  shows "docFiles (snd (processTierBatch llm now ss model w)) i = docFiles w i"
proof -
  obtain r0 w0 where P: "messagesCreate llm model 4000 (BatchPrompt ss) w = (r0, w0)"
    by (cases "messagesCreate llm model 4000 (BatchPrompt ss) w")
  from messagesCreate_world [OF P] have d: "docFiles w0 = docFiles w" by simp
  show ?thesis
  proof (cases r0)
    case (Inl e)
    with P d show ?thesis by (simp add: processTierBatch_def)
  next
    case (Inr t)
    with P d saveParsed_other [OF assms, of now "parseBatchResponse t ss" w0]
    show ?thesis by (simp add: processTierBatch_def)
  qed
qed

text \<open>
  Claim C10.  \<open>parseBatchResponse\<close> gives the same result whatever sessions it is passed:
  the keys of the result are the ids of the blocks in the response, so a block for an id
  outside the batch has an entry all the same.  Only the save loop refers to the batch:
  the documentation of an id outside the batch is left as it was, by the loop and so by
  \<open>processTierBatch\<close>.
\<close>

theorem parseBatchResponse_ignores_expected_sessions:
  "parseBatchResponse r ss = parseBatchResponse r ss'
   \<and> fst ` set (parseBatchResponse r ss) = fst ` set (sessionBlocks r)
   \<and> (i \<in> fst ` set (sessionBlocks r) \<longrightarrow> mapGet (parseBatchResponse r ss) i \<noteq> None)
   \<and> (i \<notin> (\<lambda>s. session_id (session s)) ` set ss \<longrightarrow>
        docFiles (saveParsed now (parseBatchResponse r ss) ss w) i = docFiles w i
        \<and> docFiles (snd (processTierBatch llm now ss model w)) i = docFiles w i)"
proof -
  have 1: "parseBatchResponse r ss = parseBatchResponse r ss'"
    by (simp add: parseBatchResponse_def)
  have 2: "fst ` set (parseBatchResponse r ss) = fst ` set (sessionBlocks r)"
    by (simp add: parseBatchResponse_blocks store_keys)
  have 3: "i \<in> fst ` set (sessionBlocks r) \<longrightarrow> mapGet (parseBatchResponse r ss) i \<noteq> None"
    using 2 mapGet_Some [of i "parseBatchResponse r ss"] by simp
  have 4: "i \<notin> (\<lambda>s. session_id (session s)) ` set ss \<longrightarrow>
        docFiles (saveParsed now (parseBatchResponse r ss) ss w) i = docFiles w i
        \<and> docFiles (snd (processTierBatch llm now ss model w)) i = docFiles w i"
    using saveParsed_other [of i ss now "parseBatchResponse r ss" w]
      processTierBatch_other_docs [of i ss llm now model w] by blast
  from 1 2 3 4 show ?thesis by blast
qed

text \<open>
  The statement above at a batch holding session \<open>a\<close> and a response with one block for
  \<open>x\<close>: the block is parsed into an entry, and nothing is saved for \<open>x\<close>.
\<close>

theorem foreign_block_parsed_but_not_saved:
  "''x'' \<in> fst ` set (sessionBlocks foreignIdResponse)
   \<and> ''x'' \<notin> (\<lambda>s. session_id (session s)) ` set [exampleContext ''a'' None]
   \<and> mapGet (parseBatchResponse foreignIdResponse [exampleContext ''a'' None]) ''x'' \<noteq> None
   \<and> docFiles (snd (processTierBatch (answeringLlm foreignIdResponse) 0
        [exampleContext ''a'' None] ''claude-3-5-haiku-20241022'' emptyWorld)) ''x'' = None"
proof -
  have b: "sessionBlocks foreignIdResponse = [(''x'', '' y '')]"
    unfolding foreignIdResponse_def by code_simp
  have m: "''x'' \<in> fst ` set (sessionBlocks foreignIdResponse)" by (simp add: b)
  have n: "''x'' \<notin> (\<lambda>s. session_id (session s)) ` set [exampleContext ''a'' None]"
    by (simp add: exampleContext_def exampleSession_def)
  note T = parseBatchResponse_ignores_expected_sessions [of foreignIdResponse
      "[exampleContext ''a'' None]" "[]" "''x''" 0 emptyWorld "answeringLlm foreignIdResponse"
      "''claude-3-5-haiku-20241022''"]
  from T m have 1: "mapGet (parseBatchResponse foreignIdResponse [exampleContext ''a'' None]) ''x'' \<noteq> None"
    by blast
  from T n have "docFiles (snd (processTierBatch (answeringLlm foreignIdResponse) 0
        [exampleContext ''a'' None] ''claude-3-5-haiku-20241022'' emptyWorld)) ''x''
      = docFiles emptyWorld ''x''" by blast
  then have 2: "docFiles (snd (processTierBatch (answeringLlm foreignIdResponse) 0
        [exampleContext ''a'' None] ''claude-3-5-haiku-20241022'' emptyWorld)) ''x'' = None"
    by (simp add: emptyWorld_def)
  from m n 1 2 show ?thesis by blast
qed

section \<open>Properties of the drain operation\<close>

lemma savedDocs_other:
  "i \<notin> (\<lambda>s. session_id (session s)) ` set ss \<Longrightarrow> savedDocs now pd ss df i = df i"
  by (induction ss arbitrary: df) (auto split: option.splits)

lemma savedDocs_at:
  "distinct (map (\<lambda>s. session_id (session s)) ss) \<Longrightarrow> s \<in> set ss \<Longrightarrow>
   savedDocs now pd ss df (session_id (session s))
     = (case mapGet pd (session_id (session s)) of
          None \<Rightarrow> df (session_id (session s))
        | Some parsed \<Rightarrow> Some (mkBatchDoc now s parsed))"
proof (induction ss arbitrary: df)
  case Nil
  then show ?case by simp
next
  case (Cons a ss)
  show ?case
  proof (cases "s = a")
    case True
    from Cons.prems(1) have "session_id (session a) \<notin> (\<lambda>s. session_id (session s)) ` set ss"
      by simp
    from savedDocs_other [OF this] show ?thesis
      by (simp add: True split: option.splits)
  next
    case False
    with Cons.prems have m: "s \<in> set ss" and d: "distinct (map (\<lambda>s. session_id (session s)) ss)"
      and na: "session_id (session a) \<notin> (\<lambda>s. session_id (session s)) ` set ss"
      by auto
    from m na have n: "session_id (session s) \<noteq> session_id (session a)"
      by (metis imageI)
    from Cons.IH [OF d m] n show ?thesis
      by (simp split: option.splits)
  qed
qed

lemma processTierBatch_docs:
  assumes d: "distinct (map (\<lambda>s. session_id (session s)) ss)" and m: "s \<in> set ss"
  shows "docFiles (snd (processTierBatch llm now ss model w)) (session_id (session s))
     = documentedFrom now s ss (llm (calls w @ [MessagesCreate model 4000 (BatchPrompt ss)]))
         (docFiles w (session_id (session s)))"
proof -
  from m have ne: "ss \<noteq> []" by auto
  let ?w' = "w\<lparr> calls := calls w @ [MessagesCreate model 4000 (BatchPrompt ss)] \<rparr>"
  show ?thesis
  proof (cases "llm (calls w @ [MessagesCreate model 4000 (BatchPrompt ss)])")
    case (ApiError e)
    then show ?thesis using ne
      by (simp add: processTierBatch_def messagesCreate_def Let_def documentedFrom_def
          responseText_def)
  next
    case (TextBlock t)
    then have "snd (processTierBatch llm now ss model w)
        = saveParsed now (parseBatchResponse t ss) ss ?w'"
      using ne by (simp add: processTierBatch_def messagesCreate_def Let_def)
    then show ?thesis using savedDocs_at [OF d m, of now "parseBatchResponse t ss" "docFiles w"]
      by (simp add: saveParsed_world documentedFrom_def responseText_def TextBlock)
  next
    case OtherBlock
    then have "snd (processTierBatch llm now ss model w)
        = saveParsed now (parseBatchResponse [] ss) ss ?w'"
      using ne by (simp add: processTierBatch_def messagesCreate_def Let_def)
    then show ?thesis using savedDocs_at [OF d m, of now "parseBatchResponse [] ss" "docFiles w"]
      by (simp add: saveParsed_world documentedFrom_def responseText_def OtherBlock)
  qed
qed

lemma processTierBatch_calls:
  "calls (snd (processTierBatch llm now ss model w)) = calls w @ tierCall ss model"
proof -
  obtain r w' where P: "processTierBatch llm now ss model w = (r, w')"
    by (cases "processTierBatch llm now ss model w")
  from processTierBatch_world [OF P] obtain df where
    "w' = w\<lparr> calls := calls w @ tierCall ss model, docFiles := df \<rparr>" by blast
  then have "calls w' = calls w @ tierCall ss model" by simp
  with P show ?thesis by simp
qed

lemma tier_ids:
  assumes d: "distinct (map (\<lambda>s. session_id (session s)) ss)" and m: "s \<in> set ss"
  shows "tier (session s) = Some ''premium'' \<Longrightarrow>
           session_id (session s) \<notin> (\<lambda>s. session_id (session s)) ` set (basicTier ss)"
    and "tier (session s) \<noteq> Some ''premium'' \<Longrightarrow>
           session_id (session s) \<notin> (\<lambda>s. session_id (session s)) ` set (premiumTier ss)"
proof -
  from d have inj: "inj_on (\<lambda>s. session_id (session s)) (set ss)"
    by (simp add: distinct_map)
  show "tier (session s) = Some ''premium'' \<Longrightarrow>
           session_id (session s) \<notin> (\<lambda>s. session_id (session s)) ` set (basicTier ss)"
    using inj m by (auto simp: basicTier_def dest: inj_onD)
  show "tier (session s) \<noteq> Some ''premium'' \<Longrightarrow>
           session_id (session s) \<notin> (\<lambda>s. session_id (session s)) ` set (premiumTier ss)"
    using inj m by (auto simp: premiumTier_def dest: inj_onD)
qed

lemma processBatch_docs:
  assumes d: "distinct (map (\<lambda>s. session_id (session s)) (takeBatch cfg w))"
    and m: "s \<in> set (takeBatch cfg w)"
  shows "docFiles (snd (processBatch cfg llm now w)) (session_id (session s))
     = documentedFrom now s (tierGroup (takeBatch cfg w) s)
         (llm (tierHistory cfg (calls w) (takeBatch cfg w) s))
         (docFiles w (session_id (session s)))"
proof -
  let ?ss = "takeBatch cfg w"
  let ?i = "session_id (session s)"
  let ?w2 = "w\<lparr> batchTimer := False,
               pendingQueue := foldl (\<lambda>q s. mapDelete (session_id (session s)) q)
                                 (pendingQueue w) ?ss \<rparr>"
  let ?P1 = "processTierBatch llm now (basicTier ?ss) (basicModel cfg) ?w2"
  let ?P2 = "processTierBatch llm now (premiumTier ?ss) (premiumModel cfg) (snd ?P1)"
  have tb: "takeBatch cfg (w\<lparr>batchTimer := False\<rparr>) = ?ss" by (simp add: takeBatch_def)
  from m have ne: "?ss \<noteq> []" by auto
  have w': "snd (processBatch cfg llm now w) = snd ?P2"
    using ne tb by (simp add: processBatch_def Let_def split: prod.splits)
  have db: "distinct (map (\<lambda>s. session_id (session s)) (basicTier ?ss))"
    using d by (simp add: basicTier_def distinct_map_filter)
  have dp: "distinct (map (\<lambda>s. session_id (session s)) (premiumTier ?ss))"
    using d by (simp add: premiumTier_def distinct_map_filter)
  show ?thesis
  proof (cases "tier (session s) = Some ''premium''")
    case True
    with m have mp: "s \<in> set (premiumTier ?ss)" by (simp add: premiumTier_def)
    have c1: "calls (snd ?P1) = calls w @ tierCall (basicTier ?ss) (basicModel cfg)"
      by (simp add: processTierBatch_calls)
    have d1: "docFiles (snd ?P1) ?i = docFiles w ?i"
      using processTierBatch_other_docs [OF tier_ids(1) [OF d m True], of llm now "basicModel cfg" ?w2]
      by simp
    from processTierBatch_docs [OF dp mp, of llm now "premiumModel cfg" "snd ?P1"]
    show ?thesis unfolding w' c1 d1
      by (simp add: True tierGroup_def tierHistory_def tierRequest_def)
  next
    case False
    with m have mb: "s \<in> set (basicTier ?ss)" by (simp add: basicTier_def)
    have d2: "docFiles (snd ?P2) ?i = docFiles (snd ?P1) ?i"
      by (rule processTierBatch_other_docs [OF tier_ids(2) [OF d m False]])
    from processTierBatch_docs [OF db mb, of llm now "basicModel cfg" ?w2]
    show ?thesis unfolding w' d2
      by (simp add: False tierGroup_def tierHistory_def tierRequest_def)
  qed
qed

lemma pendingOk_ids:
  "pendingOk q \<Longrightarrow> map (\<lambda>s. session_id (session s)) (map snd q) = map fst q"
  by (induction q) (auto simp: pendingOk_def)

lemma tierRequest_sent:
  "s \<in> set ss \<Longrightarrow> s \<in> set (tierGroup ss s) \<and> tierRequest cfg ss s \<in> set (tierCalls cfg ss)"
  by (auto simp: tierGroup_def tierRequest_def tierCalls_def tierCall_def basicTier_def
      premiumTier_def filter_empty_conv)

text \<open>
  Claim C3, as the code has it.  \<open>flush\<close> runs \<open>processBatch\<close> once; \<open>processBatch\<close> takes
  \<open>slice(0, batchSize)\<close> of the pending sessions, removes them from the map and sends one
  request for each tier group.  On a pending map as \<open>queueSession\<close> keeps it that holds
  at most \<open>batchSize\<close> sessions, one \<open>flush\<close> leaves no session pending and sends the
  requests of the two tier groups over all of them: every pending session is in the
  request of its group.  Its documentation after the flush is the one made from its
  block in the answer to that request; when the request throws, or the answer holds
  no block for its id, the documentation is what it was before, and the session is
  no longer pending.  When the batch size is at least 1, every state the accumulator
  reaches from an empty pending map, by any calls of \<open>queueSession\<close>, of the timer
  callback and of \<open>flush\<close>, is such a map.  On any pending map as \<open>queueSession\<close> keeps
  it, one \<open>flush\<close> removes the entries \<open>processBatch\<close> takes, the first in insertion
  order, and keeps the others.
\<close>

theorem flush_drains_pending_sessions:
  "(pendingOk (pendingQueue w) \<and> int (length (pendingQueue w)) \<le> batchSize cfg \<longrightarrow>
      pendingQueue (snd (flush cfg llm now w)) = []
      \<and> calls (snd (flush cfg llm now w)) = calls w @ tierCalls cfg (map snd (pendingQueue w))
      \<and> (\<forall>s \<in> set (map snd (pendingQueue w)).
           s \<in> set (tierGroup (map snd (pendingQueue w)) s)
           \<and> tierRequest cfg (map snd (pendingQueue w)) s
               \<in> set (tierCalls cfg (map snd (pendingQueue w)))
           \<and> docFiles (snd (flush cfg llm now w)) (session_id (session s))
               = documentedFrom now s (tierGroup (map snd (pendingQueue w)) s)
                   (llm (tierHistory cfg (calls w) (map snd (pendingQueue w)) s))
                   (docFiles w (session_id (session s)))))
   \<and> (0 < batchSize cfg \<and> pendingQueue w0 = [] \<longrightarrow>
        pendingOk (pendingQueue (runCalls cfg llm cs w0))
        \<and> int (length (pendingQueue (runCalls cfg llm cs w0))) < batchSize cfg)
   \<and> (pendingOk (pendingQueue w) \<longrightarrow>
        pendingQueue (snd (flush cfg llm now w)) = drop (batchPrefix cfg w) (pendingQueue w))"
proof -
  let ?ss = "map snd (pendingQueue w)"
  let ?w' = "snd (flush cfg llm now w)"
  have A: "pendingQueue ?w' = []
      \<and> calls ?w' = calls w @ tierCalls cfg ?ss
      \<and> (\<forall>s \<in> set ?ss.
           s \<in> set (tierGroup ?ss s)
           \<and> tierRequest cfg ?ss s \<in> set (tierCalls cfg ?ss)
           \<and> docFiles ?w' (session_id (session s))
               = documentedFrom now s (tierGroup ?ss s) (llm (tierHistory cfg (calls w) ?ss s))
                   (docFiles w (session_id (session s))))"
    if ok: "pendingOk (pendingQueue w)" and le: "int (length (pendingQueue w)) \<le> batchSize cfg"
  proof -
    have tb: "takeBatch cfg w = ?ss" using le by (simp add: takeBatch_def slice0_def)
    have 1: "pendingQueue ?w' = []"
      using flush_pending [OF ok, of cfg llm now] le by (simp add: batchPrefix_def)
    have 2: "calls ?w' = calls w @ tierCalls cfg ?ss"
      using flush_calls [of cfg llm now w] by (simp add: tb)
    have d: "distinct (map (\<lambda>s. session_id (session s)) (takeBatch cfg w))"
      unfolding tb pendingOk_ids [OF ok] using ok by (simp add: pendingOk_def)
    have 3: "\<forall>s \<in> set ?ss.
           s \<in> set (tierGroup ?ss s)
           \<and> tierRequest cfg ?ss s \<in> set (tierCalls cfg ?ss)
           \<and> docFiles ?w' (session_id (session s))
               = documentedFrom now s (tierGroup ?ss s) (llm (tierHistory cfg (calls w) ?ss s))
                   (docFiles w (session_id (session s)))"
    proof
      fix s :: SessionContext
      assume m: "s \<in> set ?ss"
      then have ne: "length (pendingQueue w) > 0" by auto
      from m have m': "s \<in> set (takeBatch cfg w)" by (simp only: tb)
      from processBatch_docs [OF d m', of llm now]
      have "docFiles ?w' (session_id (session s))
               = documentedFrom now s (tierGroup ?ss s) (llm (tierHistory cfg (calls w) ?ss s))
                   (docFiles w (session_id (session s)))"
        using ne unfolding tb by (simp add: flush_def)
      with tierRequest_sent [OF m, of cfg]
      show "s \<in> set (tierGroup ?ss s)
           \<and> tierRequest cfg ?ss s \<in> set (tierCalls cfg ?ss)
           \<and> docFiles ?w' (session_id (session s))
               = documentedFrom now s (tierGroup ?ss s) (llm (tierHistory cfg (calls w) ?ss s))
                   (docFiles w (session_id (session s)))" by blast
    qed
    from 1 2 3 show ?thesis by blast
  qed
  have B: "pendingOk (pendingQueue (runCalls cfg llm cs w0))
        \<and> int (length (pendingQueue (runCalls cfg llm cs w0))) < batchSize cfg"
    if "0 < batchSize cfg" and "pendingQueue w0 = []"
    using runCalls_invariant [OF that] .
  have C: "pendingQueue ?w' = drop (batchPrefix cfg w) (pendingQueue w)"
    if "pendingOk (pendingQueue w)"
    using flush_pending [OF that] .
  from A B C show ?thesis by blast
qed

lemma foreign_blocks: "sessionBlocks foreignIdResponse = [(''x'', '' y '')]"
  unfolding foreignIdResponse_def by code_simp

text \<open>
  Claim C3 as stated fails, on maps reached from the empty one under configurations
  that \<open>loadConfig\<close> returns.  With \<open>BATCH_SIZE=5\<close> and a generation client that throws,
  the flush of one pending session throws, leaves the map empty and saves no
  documentation: the session is dropped.  With a client whose answer holds no block
  for the session the flush succeeds, and the session is dropped all the same.  With
  \<open>BATCH_SIZE=0\<close> the flush takes \<open>slice(0, 0)\<close>, and the pending session is still
  pending afterwards.
\<close>

theorem flush_drops_or_keeps_pending_sessions:
  "loadConfig (exampleEnv 5 3) = Inr (exampleConfig 5 3)
   \<and> pendingQueue (runCalls (exampleConfig 5 3) failingLlm
        [QueueCall 0 (exampleContext ''a'' None)] emptyWorld) = [(''a'', exampleContext ''a'' None)]
   \<and> fst (flush (exampleConfig 5 3) failingLlm 1
        (runCalls (exampleConfig 5 3) failingLlm
           [QueueCall 0 (exampleContext ''a'' None)] emptyWorld))
       = Inl (GenerationFailed ''unavailable'')
   \<and> pendingQueue (snd (flush (exampleConfig 5 3) failingLlm 1
        (runCalls (exampleConfig 5 3) failingLlm
           [QueueCall 0 (exampleContext ''a'' None)] emptyWorld))) = []
   \<and> docFiles (snd (flush (exampleConfig 5 3) failingLlm 1
        (runCalls (exampleConfig 5 3) failingLlm
           [QueueCall 0 (exampleContext ''a'' None)] emptyWorld))) ''a'' = None
   \<and> fst (flush (exampleConfig 5 3) (answeringLlm foreignIdResponse) 1
        (runCalls (exampleConfig 5 3) (answeringLlm foreignIdResponse)
           [QueueCall 0 (exampleContext ''a'' None)] emptyWorld)) = Inr ()
   \<and> pendingQueue (snd (flush (exampleConfig 5 3) (answeringLlm foreignIdResponse) 1
        (runCalls (exampleConfig 5 3) (answeringLlm foreignIdResponse)
           [QueueCall 0 (exampleContext ''a'' None)] emptyWorld))) = []
   \<and> docFiles (snd (flush (exampleConfig 5 3) (answeringLlm foreignIdResponse) 1
        (runCalls (exampleConfig 5 3) (answeringLlm foreignIdResponse)
           [QueueCall 0 (exampleContext ''a'' None)] emptyWorld))) ''a'' = None
   \<and> loadConfig (exampleEnv 0 3) = Inr (exampleConfig 0 3)
   \<and> pendingQueue (runCalls (exampleConfig 0 3) failingLlm
        [QueueCall 0 (exampleContext ''a'' None)] emptyWorld) = [(''a'', exampleContext ''a'' None)]
   \<and> pendingQueue (snd (flush (exampleConfig 0 3) failingLlm 1
        (runCalls (exampleConfig 0 3) failingLlm
           [QueueCall 0 (exampleContext ''a'' None)] emptyWorld)))
       = [(''a'', exampleContext ''a'' None)]"
proof -
  have wa: "runCalls (exampleConfig 5 3) (answeringLlm foreignIdResponse)
        [QueueCall 0 (exampleContext ''a'' None)] emptyWorld
      = emptyWorld\<lparr> calls := [QueueSession ''a''],
          pendingQueue := [(''a'', exampleContext ''a'' None)], batchTimer := True \<rparr>"
    by (simp add: runCalls_def queueSession_def Let_def emptyWorld_def exampleConfig_def
        exampleContext_def exampleSession_def)
  have pa: "mapGet (parseBatchResponse foreignIdResponse ss) ''a'' = None" for ss
    by (simp add: parseBatchResponse_blocks foreign_blocks storeBlock_def mapGet_def)
  have 7: "fst (flush (exampleConfig 5 3) (answeringLlm foreignIdResponse) 1
        (runCalls (exampleConfig 5 3) (answeringLlm foreignIdResponse)
           [QueueCall 0 (exampleContext ''a'' None)] emptyWorld)) = Inr ()
   \<and> pendingQueue (snd (flush (exampleConfig 5 3) (answeringLlm foreignIdResponse) 1
        (runCalls (exampleConfig 5 3) (answeringLlm foreignIdResponse)
           [QueueCall 0 (exampleContext ''a'' None)] emptyWorld))) = []
   \<and> docFiles (snd (flush (exampleConfig 5 3) (answeringLlm foreignIdResponse) 1
        (runCalls (exampleConfig 5 3) (answeringLlm foreignIdResponse)
           [QueueCall 0 (exampleContext ''a'' None)] emptyWorld))) ''a'' = None"
    unfolding wa
    by (simp add: emptyWorld_def exampleContext_def exampleSession_def exampleConfig_def
        flush_def processBatch_def takeBatch_def slice0_def mapDelete_def basicTier_def
        premiumTier_def processTierBatch_def messagesCreate_def answeringLlm_def pa Let_def)
  have 1: "loadConfig (exampleEnv 5 3) = Inr (exampleConfig 5 3)"
    by (simp add: loadConfig_def exampleEnv_def exampleConfig_def getEnvOrThrow_def
        getEnvOrDefault_def getEnvIntOrDefault_def)
  have 2: "loadConfig (exampleEnv 0 3) = Inr (exampleConfig 0 3)"
    by (simp add: loadConfig_def exampleEnv_def exampleConfig_def getEnvOrThrow_def
        getEnvOrDefault_def getEnvIntOrDefault_def)
  have w5: "runCalls (exampleConfig 5 3) failingLlm
        [QueueCall 0 (exampleContext ''a'' None)] emptyWorld
      = emptyWorld\<lparr> calls := [QueueSession ''a''],
          pendingQueue := [(''a'', exampleContext ''a'' None)], batchTimer := True \<rparr>"
    by (simp add: runCalls_def queueSession_def Let_def emptyWorld_def exampleConfig_def
        exampleContext_def exampleSession_def)
  have w0: "runCalls (exampleConfig 0 3) failingLlm
        [QueueCall 0 (exampleContext ''a'' None)] emptyWorld
      = emptyWorld\<lparr> calls := [QueueSession ''a''],
          pendingQueue := [(''a'', exampleContext ''a'' None)] \<rparr>"
    by (simp add: runCalls_def queueSession_def processBatch_def takeBatch_def slice0_def
        Let_def emptyWorld_def exampleConfig_def exampleContext_def exampleSession_def)
  have 3: "fst (flush (exampleConfig 5 3) failingLlm 1
        (runCalls (exampleConfig 5 3) failingLlm
           [QueueCall 0 (exampleContext ''a'' None)] emptyWorld))
       = Inl (GenerationFailed ''unavailable'')
   \<and> pendingQueue (snd (flush (exampleConfig 5 3) failingLlm 1
        (runCalls (exampleConfig 5 3) failingLlm
           [QueueCall 0 (exampleContext ''a'' None)] emptyWorld))) = []
   \<and> docFiles (snd (flush (exampleConfig 5 3) failingLlm 1
        (runCalls (exampleConfig 5 3) failingLlm
           [QueueCall 0 (exampleContext ''a'' None)] emptyWorld))) ''a'' = None"
    unfolding w5
    by (simp add: emptyWorld_def exampleContext_def exampleSession_def exampleConfig_def
        flush_def processBatch_def takeBatch_def slice0_def mapDelete_def basicTier_def
        premiumTier_def processTierBatch_def messagesCreate_def failingLlm_def Let_def)
  have 4: "pendingQueue (snd (flush (exampleConfig 0 3) failingLlm 1
        (runCalls (exampleConfig 0 3) failingLlm
           [QueueCall 0 (exampleContext ''a'' None)] emptyWorld)))
       = [(''a'', exampleContext ''a'' None)]"
    unfolding w0
    by (simp add: emptyWorld_def exampleContext_def exampleSession_def exampleConfig_def
        flush_def processBatch_def takeBatch_def slice0_def Let_def)
  have 5: "pendingQueue (runCalls (exampleConfig 5 3) failingLlm
        [QueueCall 0 (exampleContext ''a'' None)] emptyWorld) = [(''a'', exampleContext ''a'' None)]"
    unfolding w5 by simp
  have 6: "pendingQueue (runCalls (exampleConfig 0 3) failingLlm
        [QueueCall 0 (exampleContext ''a'' None)] emptyWorld) = [(''a'', exampleContext ''a'' None)]"
    unfolding w0 by simp
  from 1 2 3 4 5 6 7 show ?thesis by blast
qed

text \<open>
  The statement above at batch size three, after sessions \<open>x\<close> (basic) and \<open>b\<close> (premium)
  have been queued, with a client that answers every request with one block for \<open>x\<close>:
  the flush leaves nothing pending, saves the documentation of \<open>x\<close> and none for \<open>b\<close>.
\<close>

theorem flush_drains_witness:
  "pendingOk (pendingQueue (runCalls (exampleConfig 3 3) (answeringLlm foreignIdResponse)
      [QueueCall 0 (exampleContext ''x'' None), QueueCall 1 (exampleContext ''b'' (Some ''premium''))]
      emptyWorld))
   \<and> int (length (pendingQueue (runCalls (exampleConfig 3 3) (answeringLlm foreignIdResponse)
      [QueueCall 0 (exampleContext ''x'' None), QueueCall 1 (exampleContext ''b'' (Some ''premium''))]
      emptyWorld))) < batchSize (exampleConfig 3 3)
   \<and> map fst (pendingQueue (runCalls (exampleConfig 3 3) (answeringLlm foreignIdResponse)
      [QueueCall 0 (exampleContext ''x'' None), QueueCall 1 (exampleContext ''b'' (Some ''premium''))]
      emptyWorld)) = [''x'', ''b'']
   \<and> pendingQueue (snd (flush (exampleConfig 3 3) (answeringLlm foreignIdResponse) 7
      (runCalls (exampleConfig 3 3) (answeringLlm foreignIdResponse)
      [QueueCall 0 (exampleContext ''x'' None), QueueCall 1 (exampleContext ''b'' (Some ''premium''))]
      emptyWorld))) = []
   \<and> docFiles (snd (flush (exampleConfig 3 3) (answeringLlm foreignIdResponse) 7
      (runCalls (exampleConfig 3 3) (answeringLlm foreignIdResponse)
      [QueueCall 0 (exampleContext ''x'' None), QueueCall 1 (exampleContext ''b'' (Some ''premium''))]
      emptyWorld))) ''x''
       = Some (mkBatchDoc 7 (exampleContext ''x'' None) (mkParsed ''x'' ''y''))
   \<and> docFiles (snd (flush (exampleConfig 3 3) (answeringLlm foreignIdResponse) 7
      (runCalls (exampleConfig 3 3) (answeringLlm foreignIdResponse)
      [QueueCall 0 (exampleContext ''x'' None), QueueCall 1 (exampleContext ''b'' (Some ''premium''))]
      emptyWorld))) ''b'' = None"
proof -
  let ?cfg = "exampleConfig 3 3"
  let ?llm = "answeringLlm foreignIdResponse"
  let ?x = "exampleContext ''x'' None"
  let ?b = "exampleContext ''b'' (Some ''premium'')"
  let ?cs = "[QueueCall 0 ?x, QueueCall 1 ?b]"
  let ?w = "runCalls ?cfg ?llm ?cs emptyWorld"
  have pos: "0 < batchSize ?cfg" by (simp add: exampleConfig_def)
  have start: "pendingQueue emptyWorld = []" by (simp add: emptyWorld_def)
  have pq: "pendingQueue ?w = [(''x'', ?x), (''b'', ?b)]"
    by (simp add: runCalls_def queueSession_def Let_def emptyWorld_def exampleConfig_def
        exampleContext_def exampleSession_def)
  have dw: "docFiles ?w = (\<lambda>i. None)"
    by (simp add: runCalls_def queueSession_def Let_def emptyWorld_def exampleConfig_def
        exampleContext_def exampleSession_def)
  have sx: "session_id (session ?x) = ''x''" and sb: "session_id (session ?b) = ''b''"
    by (simp_all add: exampleContext_def exampleSession_def)
  have px: "mapGet (parseBatchResponse foreignIdResponse ss) ''x'' = Some (mkParsed ''x'' ''y'')"
    for ss
    by (simp add: parseBatchResponse_blocks foreign_blocks storeBlock_def mapGet_def trim_def
        isSpace_def)
  have pb: "mapGet (parseBatchResponse foreignIdResponse ss) ''b'' = None" for ss
    by (simp add: parseBatchResponse_blocks foreign_blocks storeBlock_def mapGet_def)
  note T = flush_drains_pending_sessions [of ?w ?cfg ?llm 7 emptyWorld ?cs]
  from T pos start have inv: "pendingOk (pendingQueue ?w)
      \<and> int (length (pendingQueue ?w)) < batchSize ?cfg" by blast
  then have hyp: "pendingOk (pendingQueue ?w) \<and> int (length (pendingQueue ?w)) \<le> batchSize ?cfg"
    by simp
  from T hyp have 1: "pendingQueue (snd (flush ?cfg ?llm 7 ?w)) = []" by blast
  from T hyp have D: "\<forall>s \<in> set (map snd (pendingQueue ?w)).
      docFiles (snd (flush ?cfg ?llm 7 ?w)) (session_id (session s))
        = documentedFrom 7 s (tierGroup (map snd (pendingQueue ?w)) s)
            (?llm (tierHistory ?cfg (calls ?w) (map snd (pendingQueue ?w)) s))
            (docFiles ?w (session_id (session s)))" by blast
  have mx: "?x \<in> set (map snd (pendingQueue ?w))" unfolding pq by simp
  have mb: "?b \<in> set (map snd (pendingQueue ?w))" unfolding pq by simp
  from bspec [OF D mx] have 2: "docFiles (snd (flush ?cfg ?llm 7 ?w)) ''x''
      = Some (mkBatchDoc 7 ?x (mkParsed ''x'' ''y''))"
    by (simp add: documentedFrom_def answeringLlm_def responseText_def px sx)
  from bspec [OF D mb] have 3: "docFiles (snd (flush ?cfg ?llm 7 ?w)) ''b'' = None"
    by (simp add: documentedFrom_def answeringLlm_def responseText_def pb sb dw)
  have 4: "map fst (pendingQueue ?w) = [''x'', ''b'']" unfolding pq by simp
  from inv 1 2 3 4 show ?thesis by blast
qed

section \<open>Properties of the summarizer\<close>

lemma stage_index: "k * STAGE_SIZE < length ts \<longleftrightarrow> k < stageCount ts"
proof -
  have "k < (length ts + 19) div 20 \<longleftrightarrow> Suc k \<le> (length ts + 19) div 20"
    by (simp add: Suc_le_eq)
  also have "\<dots> \<longleftrightarrow> Suc k * 20 \<le> length ts + 19"
    by (simp add: less_eq_div_iff_mult_less_eq)
  also have "\<dots> \<longleftrightarrow> k * 20 < length ts" by auto
  finally show ?thesis by (simp add: stageCount_def STAGE_SIZE_def add.commute)
qed

lemma stageLoop_sendAll:
  "stageLoop llm model ts (stageCount ts) (k * STAGE_SIZE) sums w =
     (case sendAll llm (calls w) (map (stageCall model ts) [k..<stageCount ts]) of
        (Inl e, h) \<Rightarrow> (Inl e, w\<lparr> calls := h \<rparr>)
      | (Inr ss, h) \<Rightarrow> (Inr (sums @ ss), w\<lparr> calls := h \<rparr>))"
proof (induction "stageCount ts - k" arbitrary: k sums w)
  case 0
  then have ni: "\<not> k * STAGE_SIZE < length ts" by (simp add: stage_index)
  from 0 have e: "map (stageCall model ts) [k..<stageCount ts] = []" by simp
  have "stageLoop llm model ts (stageCount ts) (k * STAGE_SIZE) sums w = (Inr sums, w)"
    by (subst stageLoop.simps) (simp add: ni)
  then show ?case unfolding e by simp
next
  case (Suc n)
  then have lt: "k < stageCount ts" by simp
  then have i: "k * STAGE_SIZE < length ts" by (simp add: stage_index)
  have u: "map (stageCall model ts) [k..<stageCount ts]
      = stageCall model ts k # map (stageCall model ts) [Suc k..<stageCount ts]"
    using lt by (simp add: upt_conv_Cons)
  let ?c = "stageCall model ts k"
  let ?rest = "map (stageCall model ts) [Suc k..<stageCount ts]"
  let ?w1 = "w\<lparr> calls := calls w @ [?c] \<rparr>"
  have ch: "slice (k * STAGE_SIZE) (k * STAGE_SIZE + STAGE_SIZE) ts = stageChunk ts k"
    by (simp add: slice_def stageChunk_def)
  have sp: "0 < STAGE_SIZE" by (simp add: STAGE_SIZE_def)
  have step: "Suc k * STAGE_SIZE = k * STAGE_SIZE + STAGE_SIZE" by simp
  from Suc have n: "n = stageCount ts - Suc k" by simp
  note IH = Suc.hyps(1) [OF n, unfolded step]
  have unf: "stageLoop llm model ts (stageCount ts) (k * STAGE_SIZE) sums w
      = (case messagesCreate llm model 500
                (StagePrompt (stageChunk ts k) (Suc k) (stageCount ts)) w of
           (Inl e, w') \<Rightarrow> (Inl e, w')
         | (Inr summ, w') \<Rightarrow>
             stageLoop llm model ts (stageCount ts) (k * STAGE_SIZE + STAGE_SIZE)
               (sums @ [summ]) w')"
    using sp by (subst stageLoop.simps) (simp add: i ch Let_def)
  obtain r h where R: "sendAll llm (calls ?w1) ?rest = (r, h)"
    by (cases "sendAll llm (calls ?w1) ?rest")
  have c1: "calls ?w1 = calls w @ [?c]" by simp
  have upd: "?w1\<lparr> calls := h \<rparr> = w\<lparr> calls := h \<rparr>" by simp
  show ?case
  proof (cases "llm (calls w @ [?c])")
    case (ApiError m)
    then have m: "messagesCreate llm model 500
        (StagePrompt (stageChunk ts k) (Suc k) (stageCount ts)) w
          = (Inl (GenerationFailed m), ?w1)"
      by (simp add: messagesCreate_def stageCall_def Let_def)
    have "sendAll llm (calls w) (?c # ?rest) = (Inl (GenerationFailed m), calls w @ [?c])"
      using ApiError by simp
    then show ?thesis unfolding unf m u by simp
  next
    case (TextBlock t)
    then have m: "messagesCreate llm model 500
        (StagePrompt (stageChunk ts k) (Suc k) (stageCount ts)) w = (Inr t, ?w1)"
      by (simp add: messagesCreate_def stageCall_def Let_def)
    have s: "sendAll llm (calls w) (?c # ?rest)
        = (case r of Inl e \<Rightarrow> (Inl e, h) | Inr ss \<Rightarrow> (Inr (t # ss), h))"
      using TextBlock R [unfolded c1] by (cases r) simp_all
    show ?thesis
      unfolding unf m u s using IH [of "sums @ [t]" ?w1] R upd
      by (cases r) simp_all
  next
    case OtherBlock
    then have m: "messagesCreate llm model 500
        (StagePrompt (stageChunk ts k) (Suc k) (stageCount ts)) w = (Inr [], ?w1)"
      by (simp add: messagesCreate_def stageCall_def Let_def)
    have s: "sendAll llm (calls w) (?c # ?rest)
        = (case r of Inl e \<Rightarrow> (Inl e, h) | Inr ss \<Rightarrow> (Inr ([] # ss), h))"
      using OtherBlock R [unfolded c1] by (cases r) simp_all
    show ?thesis
      unfolding unf m u s using IH [of "sums @ [[]]" ?w1] R upd
      by (cases r) simp_all
  qed
qed

lemma sendAll_ok:
  "sendAll llm h cs = (Inr ss, h') \<Longrightarrow>
   h' = h @ cs \<and> length ss = length cs
   \<and> (\<forall>k<length cs. responseText (llm (h @ take (Suc k) cs)) = Some (ss ! k))"
proof (induction cs arbitrary: h ss h')
  case Nil
  then show ?case by simp
next
  case (Cons c cs)
  obtain r h1 where R: "sendAll llm (h @ [c]) cs = (r, h1)"
    by (cases "sendAll llm (h @ [c]) cs")
  from Cons.prems R obtain t ss' where t: "responseText (llm (h @ [c])) = Some t"
    and r: "r = Inr ss'" and ss: "ss = t # ss'" and h': "h' = h1"
    by (cases "llm (h @ [c])"; cases r) (auto simp: responseText_def)
  from Cons.IH [OF R [unfolded r]] have IH: "h1 = (h @ [c]) @ cs" "length ss' = length cs"
    "\<forall>k<length cs. responseText (llm ((h @ [c]) @ take (Suc k) cs)) = Some (ss' ! k)"
    by blast+
  have "\<forall>k<length (c # cs). responseText (llm (h @ take (Suc k) (c # cs))) = Some (ss ! k)"
  proof (intro allI impI)
    fix k assume "k < length (c # cs)"
    then show "responseText (llm (h @ take (Suc k) (c # cs))) = Some (ss ! k)"
      using t IH(3) by (cases k) (simp_all add: ss)
  qed
  with IH(1,2) show ?case by (simp add: ss h')
qed

lemma sendAll_fail:
  "sendAll llm h cs = (Inl e, h') \<Longrightarrow>
   \<exists>j<length cs. h' = h @ take (Suc j) cs
     \<and> (\<exists>m. e = GenerationFailed m \<and> llm h' = ApiError m)
     \<and> (\<forall>k<j. responseText (llm (h @ take (Suc k) cs)) \<noteq> None)"
proof (induction cs arbitrary: h h')
  case Nil
  then show ?case by simp
next
  case (Cons c cs)
  show ?case
  proof (cases "responseText (llm (h @ [c]))")
    case None
    then obtain m where m: "llm (h @ [c]) = ApiError m"
      by (cases "llm (h @ [c])") (auto simp: responseText_def)
    with Cons.prems have "h' = h @ [c]" "e = GenerationFailed m" by auto
    with m show ?thesis by (intro exI [of _ 0]) simp
  next
    case (Some t)
    obtain r h1 where R: "sendAll llm (h @ [c]) cs = (r, h1)"
      by (cases "sendAll llm (h @ [c]) cs")
    from Cons.prems R Some have r: "r = Inl e" and h': "h' = h1"
      by (cases "llm (h @ [c])"; cases r; auto simp: responseText_def)+
    from Cons.IH [OF R [unfolded r]] obtain j where j: "j < length cs"
      "h1 = (h @ [c]) @ take (Suc j) cs"
      "\<exists>m. e = GenerationFailed m \<and> llm h1 = ApiError m"
      "\<forall>k<j. responseText (llm ((h @ [c]) @ take (Suc k) cs)) \<noteq> None"
      by blast
    have "\<forall>k<Suc j. responseText (llm (h @ take (Suc k) (c # cs))) \<noteq> None"
    proof (intro allI impI)
      fix k assume "k < Suc j"
      then show "responseText (llm (h @ take (Suc k) (c # cs))) \<noteq> None"
        using Some j(4) by (cases k) simp_all
    qed
    with j(1,2,3) show ?thesis
      by (intro exI [of _ "Suc j"]) (simp add: h')
  qed
qed

lemma stagedSummarization_sendAll:
  "stagedSummarization llm now sc model w =
     (case sendAll llm (calls w) (stageCalls model (thoughts sc)) of
        (Inl e, h) \<Rightarrow> (Inl e, w\<lparr> calls := h \<rparr>)
      | (Inr sums, h) \<Rightarrow>
          (case messagesCreate llm model 3000
                  (SynthesisPrompt sums (tasks sc) (session sc)) (w\<lparr> calls := h \<rparr>) of
             (Inl e, w2) \<Rightarrow> (Inl e, w2)
           | (Inr cont, w2) \<Rightarrow>
               (Inr (mkDoc now sc
                  (''Large session with '' @ showNat (length (thoughts sc)) @ '' thoughts'') cont),
                saveDocumentation
                  (mkDoc now sc
                     (''Large session with '' @ showNat (length (thoughts sc)) @ '' thoughts'')
                     cont) w2)))"
proof -
  have "stageLoop llm model (thoughts sc) (stageCount (thoughts sc)) (0 * STAGE_SIZE) [] w
      = (case sendAll llm (calls w) (stageCalls model (thoughts sc)) of
          (Inl e, h) \<Rightarrow> (Inl e, w\<lparr> calls := h \<rparr>)
        | (Inr ss, h) \<Rightarrow> (Inr ([] @ ss), w\<lparr> calls := h \<rparr>))"
    unfolding stageCalls_def by (rule stageLoop_sendAll)
  then have L: "stageLoop llm model (thoughts sc) (stageCount (thoughts sc)) 0 [] w
      = (case sendAll llm (calls w) (stageCalls model (thoughts sc)) of
          (Inl e, h) \<Rightarrow> (Inl e, w\<lparr> calls := h \<rparr>)
        | (Inr ss, h) \<Rightarrow> (Inr ss, w\<lparr> calls := h \<rparr>))"
    by (simp split: prod.splits sum.splits)
  obtain r h where R: "sendAll llm (calls w) (stageCalls model (thoughts sc)) = (r, h)"
    by (cases "sendAll llm (calls w) (stageCalls model (thoughts sc))")
  show ?thesis
    unfolding stagedSummarization_def Let_def stageCount_def [symmetric] L R
    by (cases r) (simp_all add: Let_def split: prod.splits sum.splits)
qed








lemma stageCalls_nth:
  "length (stageCalls model ts) = stageCount ts
   \<and> (\<forall>k<stageCount ts. stageCalls model ts ! k
        = MessagesCreate model 500 (StagePrompt (stageChunk ts k) (Suc k) (stageCount ts)))"
  by (simp add: stageCalls_def stageCall_def)

lemma staged_ok:
  assumes "stagedSummarization llm now sc model w = (Inr doc, w')"
  shows "\<exists>sums cont. length sums = stageCount (thoughts sc)
     \<and> (\<forall>k<stageCount (thoughts sc).
          responseText (llm (calls w @ take (Suc k) (stageCalls model (thoughts sc))))
            = Some (sums ! k))
     \<and> responseText (llm (calls w @ stageCalls model (thoughts sc)
                             @ [synthesisCall model sums sc])) = Some cont
     \<and> doc = mkDoc now sc
               (''Large session with '' @ showNat (length (thoughts sc)) @ '' thoughts'') cont
     \<and> w' = w\<lparr> calls := calls w @ stageCalls model (thoughts sc)
                           @ [synthesisCall model sums sc],
                 docFiles := (docFiles w)(session_id (session sc) \<mapsto> doc) \<rparr>"
proof -
  let ?cs = "stageCalls model (thoughts sc)"
  obtain r h where R: "sendAll llm (calls w) ?cs = (r, h)"
    by (cases "sendAll llm (calls w) ?cs")
  from assms obtain sums where r: "r = Inr sums"
    unfolding stagedSummarization_sendAll R by (cases r) auto
  from sendAll_ok [OF R [unfolded r]] have h: "h = calls w @ ?cs"
    and l: "length sums = length ?cs"
    and t: "\<forall>k<length ?cs. responseText (llm (calls w @ take (Suc k) ?cs)) = Some (sums ! k)"
    by blast+
  let ?syn = "synthesisCall model sums sc"
  let ?w1 = "w\<lparr> calls := h \<rparr>"
  obtain r2 w2 where M: "messagesCreate llm model 3000
      (SynthesisPrompt sums (tasks sc) (session sc)) ?w1 = (r2, w2)"
    by (cases "messagesCreate llm model 3000 (SynthesisPrompt sums (tasks sc) (session sc)) ?w1")
  from messagesCreate_world [OF M] have w2: "w2 = w\<lparr> calls := calls w @ ?cs @ [?syn] \<rparr>"
    by (simp add: h synthesisCall_def)
  from assms obtain cont where r2: "r2 = Inr cont"
    and doc: "doc = mkDoc now sc
               (''Large session with '' @ showNat (length (thoughts sc)) @ '' thoughts'') cont"
    and w': "w' = saveDocumentation doc w2"
    unfolding stagedSummarization_sendAll R r using M by (cases r2) auto
  from M r2 have "responseText (llm (calls w @ ?cs @ [?syn])) = Some cont"
    by (auto simp: messagesCreate_def Let_def h synthesisCall_def responseText_def
          split: LlmResponse.splits)
  moreover have "w' = w\<lparr> calls := calls w @ ?cs @ [?syn],
                 docFiles := (docFiles w)(session_id (session sc) \<mapsto> doc) \<rparr>"
    unfolding w' w2 by (simp add: saveDocumentation_def doc mkDoc_def)
  ultimately show ?thesis
    using l t doc by (intro exI [of _ sums] exI [of _ cont]) (simp add: stageCalls_nth)
qed

lemma staged_fail:
  assumes "stagedSummarization llm now sc model w = (Inl e, w')"
  shows "\<exists>cs m. w' = w\<lparr> calls := calls w @ cs \<rparr> \<and> cs \<noteq> []
     \<and> e = GenerationFailed m \<and> llm (calls w @ cs) = ApiError m
     \<and> (\<forall>k<length cs - 1. responseText (llm (calls w @ take (Suc k) cs)) \<noteq> None)
     \<and> ((\<exists>j<stageCount (thoughts sc). cs = take (Suc j) (stageCalls model (thoughts sc)))
        \<or> (\<exists>sums. length sums = stageCount (thoughts sc)
             \<and> (\<forall>k<stageCount (thoughts sc).
                  responseText (llm (calls w @ take (Suc k) (stageCalls model (thoughts sc))))
                    = Some (sums ! k))
             \<and> cs = stageCalls model (thoughts sc) @ [synthesisCall model sums sc]))"
proof -
  let ?cs = "stageCalls model (thoughts sc)"
  have len: "length ?cs = stageCount (thoughts sc)" by (simp add: stageCalls_nth)
  obtain r h where R: "sendAll llm (calls w) ?cs = (r, h)"
    by (cases "sendAll llm (calls w) ?cs")
  show ?thesis
  proof (cases r)
    case (Inl e')
    with assms have e: "e' = e" and w': "w' = w\<lparr> calls := h \<rparr>"
      unfolding stagedSummarization_sendAll R by auto
    from sendAll_fail [OF R [unfolded Inl e]] obtain j m where j: "j < length ?cs"
      "h = calls w @ take (Suc j) ?cs" "e = GenerationFailed m" "llm h = ApiError m"
      "\<forall>k<j. responseText (llm (calls w @ take (Suc k) ?cs)) \<noteq> None"
      by blast
    have lj: "length (take (Suc j) ?cs) - 1 = j" using j(1) by simp
    have pre: "\<forall>k<j. take (Suc k) (take (Suc j) ?cs) = take (Suc k) ?cs"
      by (simp add: min_def)
    show ?thesis
      apply (intro exI [of _ "take (Suc j) ?cs"] exI [of _ m] conjI)
           apply (simp add: w' j(2))
          using j(1) apply (cases ?cs; simp)
         apply (rule j(3))
        using j(2,4) apply simp
       unfolding lj using j(5) pre apply simp
      apply (rule disjI1)
      using j(1) len apply auto
      done
  next
    case (Inr sums)
    from sendAll_ok [OF R [unfolded Inr]] have h: "h = calls w @ ?cs"
      and l: "length sums = length ?cs"
      and t: "\<forall>k<length ?cs. responseText (llm (calls w @ take (Suc k) ?cs)) = Some (sums ! k)"
      by blast+
    let ?syn = "synthesisCall model sums sc"
    let ?w1 = "w\<lparr> calls := h \<rparr>"
    obtain r2 w2 where M: "messagesCreate llm model 3000
        (SynthesisPrompt sums (tasks sc) (session sc)) ?w1 = (r2, w2)"
      by (cases "messagesCreate llm model 3000 (SynthesisPrompt sums (tasks sc) (session sc)) ?w1")
    from messagesCreate_world [OF M] have w2: "w2 = w\<lparr> calls := calls w @ ?cs @ [?syn] \<rparr>"
      by (simp add: h synthesisCall_def)
    from assms have r2: "r2 = Inl e" and w': "w' = w2"
      unfolding stagedSummarization_sendAll R Inr using M by (cases r2; auto)+
    from M r2 obtain m where m: "e = GenerationFailed m" "llm (calls w @ ?cs @ [?syn]) = ApiError m"
      by (auto simp: messagesCreate_def Let_def h synthesisCall_def split: LlmResponse.splits)
    have pre: "\<forall>k<length ?cs. responseText (llm (calls w @ take (Suc k) (?cs @ [?syn]))) \<noteq> None"
      using t by simp
    show ?thesis
      apply (intro exI [of _ "?cs @ [?syn]"] exI [of _ m] conjI)
           apply (simp add: w' w2)
          apply simp
         apply (rule m(1))
        using m(2) apply simp
       using pre apply simp
      apply (rule disjI2)
      apply (rule exI [of _ sums])
      using l t len apply simp
      done
  qed
qed

lemma generateDocumentation_staged:
  "STAGE_SIZE < length (thoughts sc) \<Longrightarrow>
   generateDocumentation cfg llm now sc tr w
     = stagedSummarization llm now sc
         (if tr = ''premium'' then premiumModel cfg else basicModel cfg)
         (w\<lparr> calls := calls w @ [GenerateDocumentation (session_id (session sc)) tr] \<rparr>)"
  by (simp add: generateDocumentation_def Let_def)



text \<open>
  Claim C6.  For a run of the staged summarization: when it fails, the state differs from
  the one before only in the record of calls, so no documentation entry is written; the
  error is the one thrown by the last request sent, so nothing is sent after the
  failing request.  The run fails exactly when one of the requests it sent, a stage
  request or the synthesis request, threw.  When it succeeds, the one document it returns
  is stored under the session's id.  \<open>generateDocumentation\<close>, which the worker calls for
  a session of more than 20 thoughts, returns that same single result and, on failure,
  leaves the documentation files as they were.
\<close>

theorem staged_failure_aborts_run:
  assumes run: "stagedSummarization llm now sc model w = (r, w')"
  shows "(\<forall>e. r = Inl e \<longrightarrow>
            w' = w\<lparr> calls := calls w' \<rparr> \<and> docFiles w' = docFiles w
            \<and> (\<exists>m. e = GenerationFailed m \<and> llm (calls w') = ApiError m))
     \<and> (isl r \<longleftrightarrow>
          (\<exists>j. length (calls w) < j \<and> j \<le> length (calls w')
               \<and> responseText (llm (take j (calls w'))) = None))
     \<and> (\<forall>doc. r = Inr doc \<longrightarrow>
            docFiles w' = (docFiles w)(session_id (session sc) \<mapsto> doc))
     \<and> (\<forall>cfg tr w0. STAGE_SIZE < length (thoughts sc)
            \<and> model = (if tr = ''premium'' then premiumModel cfg else basicModel cfg)
            \<and> w = w0\<lparr> calls := calls w0 @ [GenerateDocumentation (session_id (session sc)) tr] \<rparr>
            \<longrightarrow> generateDocumentation cfg llm now sc tr w0 = (r, w')
                \<and> (isl r \<longrightarrow> docFiles w' = docFiles w0))"
proof -
  let ?cs = "stageCalls model (thoughts sc)"
  have A: "\<forall>e. r = Inl e \<longrightarrow>
            w' = w\<lparr> calls := calls w' \<rparr> \<and> docFiles w' = docFiles w
            \<and> (\<exists>m. e = GenerationFailed m \<and> llm (calls w') = ApiError m)"
  proof (intro allI impI)
    fix e assume e: "r = Inl e"
    from staged_fail [OF run [unfolded e]] obtain cs m where
      c: "w' = w\<lparr> calls := calls w @ cs \<rparr>" "e = GenerationFailed m" "llm (calls w @ cs) = ApiError m"
      by blast
    from c(1) have cw: "calls w' = calls w @ cs" by simp
    from c(1) have "w' = w\<lparr> calls := calls w' \<rparr>" unfolding cw by simp
    moreover from c(1) have "docFiles w' = docFiles w" by simp
    ultimately show "w' = w\<lparr> calls := calls w' \<rparr> \<and> docFiles w' = docFiles w
            \<and> (\<exists>m. e = GenerationFailed m \<and> llm (calls w') = ApiError m)"
      using c(2,3) cw by simp
  qed
  have B1: "isl r \<Longrightarrow> \<exists>j. length (calls w) < j \<and> j \<le> length (calls w')
               \<and> responseText (llm (take j (calls w'))) = None"
  proof -
    assume "isl r"
    then obtain e where e: "r = Inl e" by (cases r) auto
    from staged_fail [OF run [unfolded e]] obtain cs m where
      c: "w' = w\<lparr> calls := calls w @ cs \<rparr>" "cs \<noteq> []" "llm (calls w @ cs) = ApiError m"
      by blast
    from c(1) have cw: "calls w' = calls w @ cs" by simp
    show ?thesis
      using c(2,3) by (intro exI [of _ "length (calls w')"]) (simp add: cw responseText_def)
  qed
  have B2: "\<not> isl r \<Longrightarrow> length (calls w) < j \<Longrightarrow> j \<le> length (calls w') \<Longrightarrow>
      responseText (llm (take j (calls w'))) \<noteq> None" for j
  proof -
    assume "\<not> isl r" and j1: "length (calls w) < j" and j2: "j \<le> length (calls w')"
    then obtain doc where d: "r = Inr doc" by (cases r) auto
    from staged_ok [OF run [unfolded d]] obtain sums cont where
      s: "\<forall>k<stageCount (thoughts sc).
            responseText (llm (calls w @ take (Suc k) ?cs)) = Some (sums ! k)"
        "responseText (llm (calls w @ ?cs @ [synthesisCall model sums sc])) = Some cont"
        "w' = w\<lparr> calls := calls w @ ?cs @ [synthesisCall model sums sc],
                   docFiles := (docFiles w)(session_id (session sc) \<mapsto> doc) \<rparr>"
      by blast
    from s(3) have cw: "calls w' = calls w @ ?cs @ [synthesisCall model sums sc]" by simp
    have len: "length ?cs = stageCount (thoughts sc)" by (simp add: stageCalls_nth)
    let ?k = "j - length (calls w) - 1"
    show ?thesis
    proof (cases "?k < stageCount (thoughts sc)")
      case True
      have "take j (calls w') = calls w @ take (Suc ?k) ?cs"
        unfolding cw using j1 True len by (simp add: Suc_diff_Suc)
      with s(1) True show ?thesis by simp
    next
      case False
      with j1 j2 have "j = length (calls w')" unfolding cw using len by simp
      then have "take j (calls w') = calls w @ ?cs @ [synthesisCall model sums sc]"
        unfolding cw by simp
      with s(2) show ?thesis by simp
    qed
  qed
  have B: "isl r \<longleftrightarrow>
          (\<exists>j. length (calls w) < j \<and> j \<le> length (calls w')
               \<and> responseText (llm (take j (calls w'))) = None)"
    using B1 B2 by blast
  have C: "\<forall>doc. r = Inr doc \<longrightarrow>
            docFiles w' = (docFiles w)(session_id (session sc) \<mapsto> doc)"
  proof (intro allI impI)
    fix doc assume d: "r = Inr doc"
    from staged_ok [OF run [unfolded d]] obtain sums where
      "w' = w\<lparr> calls := calls w @ ?cs @ [synthesisCall model sums sc],
                   docFiles := (docFiles w)(session_id (session sc) \<mapsto> doc) \<rparr>"
      by blast
    then show "docFiles w' = (docFiles w)(session_id (session sc) \<mapsto> doc)" by simp
  qed
  have D: "\<forall>cfg tr w0. STAGE_SIZE < length (thoughts sc)
            \<and> model = (if tr = ''premium'' then premiumModel cfg else basicModel cfg)
            \<and> w = w0\<lparr> calls := calls w0 @ [GenerateDocumentation (session_id (session sc)) tr] \<rparr>
            \<longrightarrow> generateDocumentation cfg llm now sc tr w0 = (r, w')
                \<and> (isl r \<longrightarrow> docFiles w' = docFiles w0)"
  proof (intro allI impI, elim conjE)
    fix cfg :: Config and tr :: string and w0 :: World
    assume big: "STAGE_SIZE < length (thoughts sc)"
      and m: "model = (if tr = ''premium'' then premiumModel cfg else basicModel cfg)"
      and w: "w = w0\<lparr> calls := calls w0 @ [GenerateDocumentation (session_id (session sc)) tr] \<rparr>"
    have g: "generateDocumentation cfg llm now sc tr w0 = (r, w')"
      unfolding generateDocumentation_staged [OF big] m [symmetric] w [symmetric] by (rule run)
    have "isl r \<longrightarrow> docFiles w' = docFiles w0"
    proof
      assume "isl r"
      then obtain e where "r = Inl e" by (cases r) auto
      with A have "docFiles w' = docFiles w" by blast
      then show "docFiles w' = docFiles w0" unfolding w by simp
    qed
    with g show "generateDocumentation cfg llm now sc tr w0 = (r, w')
                \<and> (isl r \<longrightarrow> docFiles w' = docFiles w0)" by blast
  qed
  show ?thesis
    apply (intro conjI)
       apply (rule A)
      apply (rule B)
     apply (rule C)
    apply (rule D)
    done
qed

text \<open>
  The statement above at a session of 45 thoughts with a generation client whose second
  call throws: the run fails with that error after two requests and saves nothing.
\<close>

theorem staged_failure_witness:
  "stagedSummarization (failsAtCall 2) 0 largeContext ''m'' emptyWorld
     = (Inl (GenerationFailed ''overloaded''),
        snd (stagedSummarization (failsAtCall 2) 0 largeContext ''m'' emptyWorld))
   \<and> length (calls (snd (stagedSummarization (failsAtCall 2) 0 largeContext ''m'' emptyWorld))) = 2
   \<and> docFiles (snd (stagedSummarization (failsAtCall 2) 0 largeContext ''m'' emptyWorld)) ''big''
       = None"
proof -
  let ?llm = "failsAtCall 2"
  obtain r w' where R: "stagedSummarization ?llm 0 largeContext ''m'' emptyWorld = (r, w')"
    by (cases "stagedSummarization ?llm 0 largeContext ''m'' emptyWorld")
  note T = staged_failure_aborts_run [OF R]
  have c: "stageCount (thoughts largeContext) = 3"
    by (simp add: stageCount_def STAGE_SIZE_def largeContext_def)
  have "\<exists>e. r = Inl e"
  proof (cases r)
    case (Inl e)
    then show ?thesis by blast
  next
    case (Inr doc)
    from staged_ok [OF R [unfolded Inr]] obtain sums where
      "\<forall>k<stageCount (thoughts largeContext).
          responseText (?llm (calls emptyWorld @ take (Suc k) (stageCalls ''m'' (thoughts largeContext))))
            = Some (sums ! k)" by blast
    then have "responseText (?llm (calls emptyWorld
        @ take (Suc 1) (stageCalls ''m'' (thoughts largeContext)))) = Some (sums ! 1)"
      unfolding c by simp
    moreover have "length (calls emptyWorld @ take (Suc 1) (stageCalls ''m'' (thoughts largeContext))) = 2"
      by (simp add: emptyWorld_def stageCalls_nth c)
    ultimately show ?thesis by (simp add: failsAtCall_def responseText_def)
  qed
  then obtain e where e: "r = Inl e" by blast
  from T e obtain m where m: "e = GenerationFailed m" "?llm (calls w') = ApiError m"
    and d: "docFiles w' = docFiles emptyWorld"
    by blast
  from m(2) have l: "length (calls w') = 2" and m': "m = ''overloaded''"
    by (auto simp: failsAtCall_def split: if_splits)
  from d have "docFiles w' ''big'' = None" by (simp add: emptyWorld_def)
  with R e m(1) m' l show ?thesis by simp
qed

section \<open>Properties of the idle session scanner\<close>

lemma autoFinalize_steps:
  "autoFinalize cfg now s w =
     (updateSession (finalizedSession now (getTasks w (session_id s)) s) w)
       \<lparr> published := published w
            @ [idleTimeoutEvent cfg now (getTasks w (session_id s)) s] \<rparr>"
  by (simp add: autoFinalize_def Let_def finalizedSession_def idleTimeoutEvent_def outcomeOf_def
      updateSession_def filter_empty_conv)

lemma map_of_mapSet: "map_of (mapSet k v m) = (map_of m)(k \<mapsto> v)"
  by (induction k v m rule: mapSet.induct) auto

lemma autoFinalize_fields:
  "taskFiles (autoFinalize cfg now s w) = taskFiles w"
  "getSession (autoFinalize cfg now s w) i =
     (if i = session_id s then Some (finalizedSession now (getTasks w (session_id s)) s)
      else getSession w i)"
  "published (autoFinalize cfg now s w) =
     published w @ [idleTimeoutEvent cfg now (getTasks w (session_id s)) s]"
  by (simp_all add: autoFinalize_steps updateSession_def getSession_def map_of_mapSet
      finalizedSession_def)

lemma getTasks_cong: "taskFiles w' = taskFiles w \<Longrightarrow> getTasks w' i = getTasks w i"
  by (simp add: getTasks_def)

lemma scanLoop_other:
  "i \<notin> session_id ` set ss \<Longrightarrow> getSession (scanLoop cfg now ss v) i = getSession v i"
  by (induction ss arbitrary: v) (simp_all add: autoFinalize_fields)

lemma scanLoop_fields:
  "taskFiles (scanLoop cfg now ss w) = taskFiles w
   \<and> published (scanLoop cfg now ss w) =
       published w @ map (\<lambda>s. idleTimeoutEvent cfg now (getTasks w (session_id s)) s)
                       (filter (isIdle cfg now) ss)
   \<and> (distinct (map session_id ss) \<longrightarrow>
        (\<forall>s \<in> set ss. getSession (scanLoop cfg now ss w) (session_id s) =
           (if isIdle cfg now s then Some (finalizedSession now (getTasks w (session_id s)) s)
            else getSession w (session_id s))))"
proof (induction ss arbitrary: w)
  case Nil
  then show ?case by simp
next
  case (Cons a ss)
  let ?w1 = "if isIdle cfg now a then autoFinalize cfg now a w else w"
  have t1: "taskFiles ?w1 = taskFiles w" by (simp add: autoFinalize_fields)
  note gt = getTasks_cong [OF t1]
  note IH = Cons.IH [of ?w1]
  have A: "taskFiles (scanLoop cfg now (a # ss) w) = taskFiles w"
    using IH t1 by simp
  have B: "published (scanLoop cfg now (a # ss) w) =
       published w @ map (\<lambda>s. idleTimeoutEvent cfg now (getTasks w (session_id s)) s)
                       (filter (isIdle cfg now) (a # ss))"
    using IH by (simp add: gt autoFinalize_fields)
  have C: "distinct (map session_id (a # ss)) \<longrightarrow>
        (\<forall>s \<in> set (a # ss). getSession (scanLoop cfg now (a # ss) w) (session_id s) =
           (if isIdle cfg now s then Some (finalizedSession now (getTasks w (session_id s)) s)
            else getSession w (session_id s)))"
  proof (intro impI ballI)
    fix s
    assume d: "distinct (map session_id (a # ss))" and s: "s \<in> set (a # ss)"
    from d have na: "session_id a \<notin> session_id ` set ss" and ds: "distinct (map session_id ss)"
      by auto
    show "getSession (scanLoop cfg now (a # ss) w) (session_id s) =
           (if isIdle cfg now s then Some (finalizedSession now (getTasks w (session_id s)) s)
            else getSession w (session_id s))"
    proof (cases "s \<in> set ss")
      case True
      with na have ne: "session_id s \<noteq> session_id a" by (auto simp: image_iff)
      from IH ds True have "getSession (scanLoop cfg now ss ?w1) (session_id s) =
           (if isIdle cfg now s then Some (finalizedSession now (getTasks ?w1 (session_id s)) s)
            else getSession ?w1 (session_id s))" by blast
      then show ?thesis using ne by (simp add: gt autoFinalize_fields)
    next
      case False
      with s have sa: "s = a" by simp
      show ?thesis
        using scanLoop_other [OF na, of cfg now ?w1] by (simp add: sa autoFinalize_fields)
    qed
  qed
  from A B C show ?case by blast
qed

lemma storageOk_active:
  assumes "storageOk w"
  shows "distinct (map session_id (listActiveSessions w))"
    and "\<forall>s \<in> set (listActiveSessions w). getSession w (session_id s) = Some s"
proof -
  from assms have d: "distinct (map fst (sessionFiles w))"
    and k: "\<forall>ds \<in> set (sessionFiles w). session_id (snd ds) = fst ds"
    by (simp_all add: storageOk_def)
  from k have m: "map session_id (map snd (sessionFiles w)) = map fst (sessionFiles w)"
    by simp
  have "distinct (map session_id (map snd (sessionFiles w)))" unfolding m by (rule d)
  then show "distinct (map session_id (listActiveSessions w))"
    unfolding listActiveSessions_def by (rule distinct_map_filter)
  show "\<forall>s \<in> set (listActiveSessions w). getSession w (session_id s) = Some s"
  proof
    fix s assume "s \<in> set (listActiveSessions w)"
    then obtain ds where ds: "ds \<in> set (sessionFiles w)" "s = snd ds"
      by (auto simp: listActiveSessions_def)
    with k have "(session_id s, s) \<in> set (sessionFiles w)" by force
    with d show "getSession w (session_id s) = Some s"
      by (simp add: getSession_def)
  qed
qed

text \<open>
  Claim C8.  \<open>autoFinalize\<close> writes the session record with status finalized, the derived
  outcome, the auto-finalized flag and \<open>updatedAt\<close> set to the current time, and on the
  state so updated publishes the idle-timeout event.  A session is idle when the time
  since its \<open>updatedAt\<close> exceeds the timeout.  After a scan of a well-formed sessions
  directory, every listed session that was idle is stored in exactly that form, with
  outcome completed when one of its tasks has status completed and abandoned
  otherwise, and an idle-timeout event for it with that outcome has been published; the
  events published are those of the idle sessions, in listing order; a listed session
  that was not idle is stored as before.
\<close>

theorem idle_sessions_are_finalized:
  assumes ok: "storageOk w"
  shows
    "(\<forall>s. autoFinalize cfg now s w =
        (updateSession (finalizedSession now (getTasks w (session_id s)) s) w)
          \<lparr> published := published w
               @ [idleTimeoutEvent cfg now (getTasks w (session_id s)) s] \<rparr>)
     \<and> (\<forall>s. isIdle cfg now s \<longleftrightarrow> idleTimeoutMinutes cfg * 60 * 1000 < now - updatedAt s)
     \<and> (\<forall>s \<in> set (listActiveSessions w). isIdle cfg now s \<longrightarrow>
          (\<exists>s'. getSession (scan cfg now w) (session_id s) = Some s'
             \<and> s' = s\<lparr> status := Finalized,
                        outcome := Some (if \<exists>t \<in> set (getTasks w (session_id s)).
                                              tk_status t = TaskCompleted
                                         then OutcomeCompleted else OutcomeAbandoned),
                        autoFinalized := Some True, updatedAt := now \<rparr>)
          \<and> (\<exists>ev \<in> set (published (scan cfg now w)).
               ev_type ev = SessionIdleTimeout \<and> sessionId ev = session_id s
               \<and> pl_outcome (payload ev)
                   = Some (if \<exists>t \<in> set (getTasks w (session_id s)).
                                tk_status t = TaskCompleted
                           then OutcomeCompleted else OutcomeAbandoned)))
     \<and> published (scan cfg now w) =
         published w @ map (\<lambda>s. idleTimeoutEvent cfg now (getTasks w (session_id s)) s)
                         (filter (isIdle cfg now) (listActiveSessions w))
     \<and> (\<forall>s \<in> set (listActiveSessions w). \<not> isIdle cfg now s \<longrightarrow>
          getSession (scan cfg now w) (session_id s) = Some s)"
proof -
  let ?ss = "listActiveSessions w"
  note F = scanLoop_fields [of cfg now ?ss w]
  note S = storageOk_active [OF ok]
  from F have P: "published (scan cfg now w) =
         published w @ map (\<lambda>s. idleTimeoutEvent cfg now (getTasks w (session_id s)) s)
                         (filter (isIdle cfg now) ?ss)"
    by (simp add: scan_def)
  from F S(1) have G: "\<forall>s \<in> set ?ss. getSession (scan cfg now w) (session_id s) =
           (if isIdle cfg now s then Some (finalizedSession now (getTasks w (session_id s)) s)
            else getSession w (session_id s))"
    by (simp add: scan_def)
  have A: "\<forall>s. autoFinalize cfg now s w =
        (updateSession (finalizedSession now (getTasks w (session_id s)) s) w)
          \<lparr> published := published w
               @ [idleTimeoutEvent cfg now (getTasks w (session_id s)) s] \<rparr>"
    by (simp add: autoFinalize_steps)
  have B: "\<forall>s. isIdle cfg now s \<longleftrightarrow> idleTimeoutMinutes cfg * 60 * 1000 < now - updatedAt s"
    by (simp add: isIdle_def)
  have C: "\<forall>s \<in> set ?ss. isIdle cfg now s \<longrightarrow>
          (\<exists>s'. getSession (scan cfg now w) (session_id s) = Some s'
             \<and> s' = s\<lparr> status := Finalized,
                        outcome := Some (if \<exists>t \<in> set (getTasks w (session_id s)).
                                              tk_status t = TaskCompleted
                                         then OutcomeCompleted else OutcomeAbandoned),
                        autoFinalized := Some True, updatedAt := now \<rparr>)
          \<and> (\<exists>ev \<in> set (published (scan cfg now w)).
               ev_type ev = SessionIdleTimeout \<and> sessionId ev = session_id s
               \<and> pl_outcome (payload ev)
                   = Some (if \<exists>t \<in> set (getTasks w (session_id s)).
                                tk_status t = TaskCompleted
                           then OutcomeCompleted else OutcomeAbandoned))"
  proof (intro ballI impI conjI)
    fix s assume s: "s \<in> set ?ss" and i: "isIdle cfg now s"
    from G s i have "getSession (scan cfg now w) (session_id s)
        = Some (finalizedSession now (getTasks w (session_id s)) s)" by simp
    then show "\<exists>s'. getSession (scan cfg now w) (session_id s) = Some s'
             \<and> s' = s\<lparr> status := Finalized,
                        outcome := Some (if \<exists>t \<in> set (getTasks w (session_id s)).
                                              tk_status t = TaskCompleted
                                         then OutcomeCompleted else OutcomeAbandoned),
                        autoFinalized := Some True, updatedAt := now \<rparr>"
      by (simp add: finalizedSession_def outcomeOf_def)
    let ?ev = "idleTimeoutEvent cfg now (getTasks w (session_id s)) s"
    from s i have "?ev \<in> set (published (scan cfg now w))" unfolding P by simp
    moreover have "ev_type ?ev = SessionIdleTimeout \<and> sessionId ?ev = session_id s
               \<and> pl_outcome (payload ?ev)
                   = Some (if \<exists>t \<in> set (getTasks w (session_id s)).
                                tk_status t = TaskCompleted
                           then OutcomeCompleted else OutcomeAbandoned)"
      by (simp add: idleTimeoutEvent_def outcomeOf_def)
    ultimately show "\<exists>ev \<in> set (published (scan cfg now w)).
               ev_type ev = SessionIdleTimeout \<and> sessionId ev = session_id s
               \<and> pl_outcome (payload ev)
                   = Some (if \<exists>t \<in> set (getTasks w (session_id s)).
                                tk_status t = TaskCompleted
                           then OutcomeCompleted else OutcomeAbandoned)"
      by blast
  qed
  have D: "\<forall>s \<in> set ?ss. \<not> isIdle cfg now s \<longrightarrow>
          getSession (scan cfg now w) (session_id s) = Some s"
    using G S(2) by simp
  show ?thesis
    apply (intro conjI)
        apply (rule A)
       apply (rule B)
      apply (rule C)
     apply (rule P)
    apply (rule D)
    done
qed

text \<open>
  The statement above at a timeout of ten minutes: a session idle with a completed
  task, one idle with a task in progress, and one updated less than ten minutes ago.
\<close>

theorem idle_scan_witness:
  "storageOk scanWorld
   \<and> activeSession ''done'' 0 \<in> set (listActiveSessions scanWorld)
   \<and> isIdle (exampleConfig 5 3) 700000 (activeSession ''done'' 0)
   \<and> getSession (scan (exampleConfig 5 3) 700000 scanWorld) ''done''
       = Some ((activeSession ''done'' 0)\<lparr> status := Finalized, outcome := Some OutcomeCompleted,
                 autoFinalized := Some True, updatedAt := 700000 \<rparr>)
   \<and> getSession (scan (exampleConfig 5 3) 700000 scanWorld) ''idle''
       = Some ((activeSession ''idle'' 0)\<lparr> status := Finalized, outcome := Some OutcomeAbandoned,
                 autoFinalized := Some True, updatedAt := 700000 \<rparr>)
   \<and> getSession (scan (exampleConfig 5 3) 700000 scanWorld) ''busy''
       = Some (activeSession ''busy'' 650000)
   \<and> map (\<lambda>ev. (ev_type ev, sessionId ev, pl_outcome (payload ev)))
        (published (scan (exampleConfig 5 3) 700000 scanWorld))
       = [(SessionIdleTimeout, ''done'', Some OutcomeCompleted),
          (SessionIdleTimeout, ''idle'', Some OutcomeAbandoned)]"
proof -
  let ?cfg = "exampleConfig 5 3"
  have ok: "storageOk scanWorld"
    by (simp add: storageOk_def scanWorld_def emptyWorld_def activeSession_def exampleSession_def)
  note T = idle_sessions_are_finalized [OF ok, of ?cfg 700000]
  have la: "listActiveSessions scanWorld
      = [activeSession ''done'' 0, activeSession ''idle'' 0, activeSession ''busy'' 650000]"
    by (simp add: listActiveSessions_def scanWorld_def emptyWorld_def activeSession_def
        exampleSession_def)
  have i1: "isIdle ?cfg 700000 (activeSession ''done'' 0)"
    and i2: "isIdle ?cfg 700000 (activeSession ''idle'' 0)"
    and i3: "\<not> isIdle ?cfg 700000 (activeSession ''busy'' 650000)"
    by (simp_all add: isIdle_def exampleConfig_def activeSession_def exampleSession_def)
  have id: "session_id (activeSession ''done'' 0) = ''done''"
    "session_id (activeSession ''idle'' 0) = ''idle''"
    "session_id (activeSession ''busy'' 650000) = ''busy''"
    by (simp_all add: activeSession_def exampleSession_def)
  have t1: "(\<exists>t \<in> set (getTasks scanWorld ''done''). tk_status t = TaskCompleted)"
    and t2: "\<not> (\<exists>t \<in> set (getTasks scanWorld ''idle''). tk_status t = TaskCompleted)"
    by (simp_all add: getTasks_def scanWorld_def emptyWorld_def exampleTask_def)
  have m1: "activeSession ''done'' 0 \<in> set (listActiveSessions scanWorld)"
    and m2: "activeSession ''idle'' 0 \<in> set (listActiveSessions scanWorld)"
    and m3: "activeSession ''busy'' 650000 \<in> set (listActiveSessions scanWorld)"
    unfolding la by simp_all
  from T m1 i1 have "\<exists>s'. getSession (scan ?cfg 700000 scanWorld)
        (session_id (activeSession ''done'' 0)) = Some s'
      \<and> s' = (activeSession ''done'' 0)\<lparr> status := Finalized,
            outcome := Some (if \<exists>t \<in> set (getTasks scanWorld (session_id (activeSession ''done'' 0))).
                                  tk_status t = TaskCompleted
                             then OutcomeCompleted else OutcomeAbandoned),
            autoFinalized := Some True, updatedAt := 700000 \<rparr>"
    by blast
  then have 1: "getSession (scan ?cfg 700000 scanWorld) ''done''
       = Some ((activeSession ''done'' 0)\<lparr> status := Finalized, outcome := Some OutcomeCompleted,
                 autoFinalized := Some True, updatedAt := 700000 \<rparr>)"
    unfolding id using t1 by simp
  from T m2 i2 have "\<exists>s'. getSession (scan ?cfg 700000 scanWorld)
        (session_id (activeSession ''idle'' 0)) = Some s'
      \<and> s' = (activeSession ''idle'' 0)\<lparr> status := Finalized,
            outcome := Some (if \<exists>t \<in> set (getTasks scanWorld (session_id (activeSession ''idle'' 0))).
                                  tk_status t = TaskCompleted
                             then OutcomeCompleted else OutcomeAbandoned),
            autoFinalized := Some True, updatedAt := 700000 \<rparr>"
    by blast
  then have 2: "getSession (scan ?cfg 700000 scanWorld) ''idle''
       = Some ((activeSession ''idle'' 0)\<lparr> status := Finalized, outcome := Some OutcomeAbandoned,
                 autoFinalized := Some True, updatedAt := 700000 \<rparr>)"
    unfolding id using t2 by simp
  from T m3 i3 have "getSession (scan ?cfg 700000 scanWorld)
        (session_id (activeSession ''busy'' 650000)) = Some (activeSession ''busy'' 650000)"
    by blast
  then have 3: "getSession (scan ?cfg 700000 scanWorld) ''busy''
       = Some (activeSession ''busy'' 650000)"
    unfolding id .
  from T have "published (scan ?cfg 700000 scanWorld) =
         published scanWorld
         @ map (\<lambda>s. idleTimeoutEvent ?cfg 700000 (getTasks scanWorld (session_id s)) s)
             (filter (isIdle ?cfg 700000) (listActiveSessions scanWorld))" by blast
  then have 4: "map (\<lambda>ev. (ev_type ev, sessionId ev, pl_outcome (payload ev)))
        (published (scan ?cfg 700000 scanWorld))
       = [(SessionIdleTimeout, ''done'', Some OutcomeCompleted),
          (SessionIdleTimeout, ''idle'', Some OutcomeAbandoned)]"
    unfolding la using i1 i2 i3 t1 t2
    by (simp add: id idleTimeoutEvent_def outcomeOf_def) (simp add: scanWorld_def emptyWorld_def)
  from ok m1 i1 1 2 3 4 show ?thesis by blast
qed

section \<open>Properties of the worker\<close>

lemma queueSession_calls:
  "\<exists>cs. calls (snd (queueSession cfg llm now c w))
     = calls w @ [QueueSession (session_id (session c))] @ cs"
proof -
  obtain r w' where Q: "queueSession cfg llm now c w = (r, w')"
    by (cases "queueSession cfg llm now c w")
  from queueSession_world [OF Q] obtain cs where
    "calls w' = calls w @ [QueueSession (session_id (session c))] @ cs"
    by (cases "batchSize cfg \<le> int (length (mapSet (session_id (session c)) c (pendingQueue w)))")
       auto
  with Q show ?thesis by auto
qed

lemma staged_calls:
  "\<exists>cs. calls (snd (stagedSummarization llm now sc model w)) = calls w @ cs"
proof -
  obtain r w' where R: "stagedSummarization llm now sc model w = (r, w')"
    by (cases "stagedSummarization llm now sc model w")
  show ?thesis
  proof (cases r)
    case (Inl e)
    from staged_fail [OF R [unfolded Inl]] obtain cs where "w' = w\<lparr> calls := calls w @ cs \<rparr>"
      by blast
    then have "calls w' = calls w @ cs" by simp
    with R show ?thesis by auto
  next
    case (Inr doc)
    from staged_ok [OF R [unfolded Inr]] obtain sums where
      "w' = w\<lparr> calls := calls w @ stageCalls model (thoughts sc) @ [synthesisCall model sums sc],
                 docFiles := (docFiles w)(session_id (session sc) \<mapsto> doc) \<rparr>"
      by blast
    then have "calls w' = calls w @ stageCalls model (thoughts sc) @ [synthesisCall model sums sc]"
      by simp
    with R show ?thesis by auto
  qed
qed

lemma processSession_cases:
  assumes "getSessionContext w (sessionId ev) = Some sc"
    and "getDocumentation w (sessionId ev) = Some d"
  shows "upToDate d sc \<Longrightarrow> processSession cfg llm now ev w = (Inr (), w)"
    and "\<not> upToDate d sc \<Longrightarrow> length (thoughts sc) \<le> 20 \<Longrightarrow>
         processSession cfg llm now ev w = queueSession cfg llm now sc w"
    and "\<not> upToDate d sc \<Longrightarrow> 20 < length (thoughts sc) \<Longrightarrow>
         snd (processSession cfg llm now ev w)
           = snd (generateDocumentation cfg llm now sc (payloadTier ev) w)"
  using assms
  by (simp_all add: processSession_def payloadTier_def Let_def split: prod.splits sum.splits)

text \<open>
  Claim C1, as the code has it.  For a session with a stored documentation entry,
  \<open>processSession\<close> enters no generation path (neither \<open>queueSession\<close> nor
  \<open>generateDocumentation\<close>, and so sends no request) exactly when the entry is up to
  date: its \<open>generatedAt\<close> is later than the session's \<open>updatedAt\<close> and its counts equal
  the numbers of thoughts and tasks.  Then nothing changes at all.  Otherwise, that is
  when \<open>generatedAt\<close> is not later than \<open>updatedAt\<close> or a count differs, a session of at
  most 20 thoughts is queued for the batch and a larger one is passed to
  \<open>generateDocumentation\<close>.
\<close>

theorem processSession_skips_iff_up_to_date:
  assumes ctx: "getSessionContext w (sessionId ev) = Some sc"
    and doc: "getDocumentation w (sessionId ev) = Some d"
  shows
    "(calls (snd (processSession cfg llm now ev w)) = calls w
        \<longleftrightarrow> \<not> (generatedAt d \<le> updatedAt (session sc)
               \<or> doc_thoughtCount d \<noteq> int (length (thoughts sc))
               \<or> doc_taskCount d \<noteq> int (length (tasks sc))))
     \<and> (updatedAt (session sc) < generatedAt d
          \<and> doc_thoughtCount d = int (length (thoughts sc))
          \<and> doc_taskCount d = int (length (tasks sc))
          \<longrightarrow> processSession cfg llm now ev w = (Inr (), w))
     \<and> ((generatedAt d \<le> updatedAt (session sc)
           \<or> doc_thoughtCount d \<noteq> int (length (thoughts sc))
           \<or> doc_taskCount d \<noteq> int (length (tasks sc)))
          \<longrightarrow> (length (thoughts sc) \<le> 20 \<longrightarrow>
                 processSession cfg llm now ev w = queueSession cfg llm now sc w
                 \<and> (\<exists>cs. calls (snd (processSession cfg llm now ev w))
                           = calls w @ [QueueSession (session_id (session sc))] @ cs))
              \<and> (20 < length (thoughts sc) \<longrightarrow>
                   (\<exists>cs. calls (snd (processSession cfg llm now ev w))
                           = calls w @ [GenerateDocumentation (session_id (session sc))
                                          (payloadTier ev)] @ cs)))"
proof -
  let ?stale = "generatedAt d \<le> updatedAt (session sc)
               \<or> doc_thoughtCount d \<noteq> int (length (thoughts sc))
               \<or> doc_taskCount d \<noteq> int (length (tasks sc))"
  have u: "upToDate d sc \<longleftrightarrow> \<not> ?stale" by (auto simp: upToDate_def)
  note P = processSession_cases [OF ctx doc, of cfg llm now]
  have skip: "\<not> ?stale \<Longrightarrow> processSession cfg llm now ev w = (Inr (), w)"
    using P(1) u by blast
  have small: "?stale \<Longrightarrow> length (thoughts sc) \<le> 20 \<Longrightarrow>
        processSession cfg llm now ev w = queueSession cfg llm now sc w
        \<and> (\<exists>cs. calls (snd (processSession cfg llm now ev w))
               = calls w @ [QueueSession (session_id (session sc))] @ cs)"
    using P(2) u queueSession_calls [of cfg llm now sc w] by simp
  have large: "?stale \<Longrightarrow> 20 < length (thoughts sc) \<Longrightarrow>
        (\<exists>cs. calls (snd (processSession cfg llm now ev w))
               = calls w @ [GenerateDocumentation (session_id (session sc)) (payloadTier ev)] @ cs)"
  proof -
    assume s: ?stale and l: "20 < length (thoughts sc)"
    from l have big: "STAGE_SIZE < length (thoughts sc)" by (simp add: STAGE_SIZE_def)
    let ?w0 = "w\<lparr> calls := calls w
        @ [GenerateDocumentation (session_id (session sc)) (payloadTier ev)] \<rparr>"
    from staged_calls [of llm now sc
        "if payloadTier ev = ''premium'' then premiumModel cfg else basicModel cfg" ?w0]
    obtain cs where "calls (snd (generateDocumentation cfg llm now sc (payloadTier ev) w))
        = calls ?w0 @ cs"
      unfolding generateDocumentation_staged [OF big] by blast
    then show ?thesis using P(3) s l u by simp
  qed
  have iff: "calls (snd (processSession cfg llm now ev w)) = calls w \<longleftrightarrow> \<not> ?stale"
  proof
    assume e: "calls (snd (processSession cfg llm now ev w)) = calls w"
    show "\<not> ?stale"
    proof
      assume s: ?stale
      show False
      proof (cases "length (thoughts sc) \<le> 20")
        case True
        from small [OF s True] e show False by auto
      next
        case False
        then have "20 < length (thoughts sc)" by simp
        from large [OF s this] e show False by auto
      qed
    qed
  next
    assume "\<not> ?stale"
    from skip [OF this] show "calls (snd (processSession cfg llm now ev w)) = calls w"
      by simp
  qed
  show ?thesis
    apply (intro conjI)
      apply (rule iff)
     using skip apply force
    using small large apply blast
    done
qed

text \<open>
  Claim C1 as stated fails when the two timestamps are equal: the entry is not stale in
  the words of the specification (its \<open>generatedAt\<close> does not precede \<open>updatedAt\<close> and the
  counts match), yet \<open>processSession\<close> queues the session for the batch.
\<close>

theorem equal_timestamps_regenerate:
  "getSessionContext (documentedWorld 1000 1000) (sessionId (finalizeEvent ''s1''))
     = Some (documentedContext 1000)
   \<and> getDocumentation (documentedWorld 1000 1000) (sessionId (finalizeEvent ''s1''))
     = Some (exampleDoc ''s1'' 1000)
   \<and> \<not> staleAsSpecified (exampleDoc ''s1'' 1000)
        (documentedContext 1000)
   \<and> calls (documentedWorld 1000 1000) = []
   \<and> calls (snd (processSession (exampleConfig 5 3) failingLlm 2000 (finalizeEvent ''s1'')
        (documentedWorld 1000 1000))) = [QueueSession ''s1'']"
  by (simp add: documentedWorld_def emptyWorld_def finalizeEvent_def exampleDoc_def
      documentedContext_def exampleSession_def exampleConfig_def staleAsSpecified_def
      getSessionContext_def getSession_def getThoughts_def getTasks_def getDocumentation_def
      processSession_def upToDate_def queueSession_def Let_def)

text \<open>
  The statement above at a document generated after the session's last update, with
  matching counts: the event is redelivered and nothing is called.
\<close>

theorem processSession_skip_witness:
  "getSessionContext (documentedWorld 1000 1500) (sessionId (finalizeEvent ''s1''))
     = Some (documentedContext 1000)
   \<and> getDocumentation (documentedWorld 1000 1500) (sessionId (finalizeEvent ''s1''))
     = Some (exampleDoc ''s1'' 1500)
   \<and> processSession (exampleConfig 5 3) failingLlm 2000 (finalizeEvent ''s1'')
        (documentedWorld 1000 1500) = (Inr (), documentedWorld 1000 1500)
   \<and> calls (snd (processSession (exampleConfig 5 3) failingLlm 2000 (finalizeEvent ''s1'')
        (documentedWorld 1000 1500))) = calls (documentedWorld 1000 1500)"
proof -
  let ?w = "documentedWorld 1000 1500"
  let ?sc = "documentedContext 1000"
  let ?d = "exampleDoc ''s1'' 1500"
  have c: "getSessionContext ?w (sessionId (finalizeEvent ''s1'')) = Some ?sc"
    by (simp add: documentedWorld_def emptyWorld_def finalizeEvent_def documentedContext_def
        exampleSession_def getSessionContext_def getSession_def getThoughts_def getTasks_def)
  have d: "getDocumentation ?w (sessionId (finalizeEvent ''s1'')) = Some ?d"
    by (simp add: documentedWorld_def emptyWorld_def finalizeEvent_def getDocumentation_def)
  have f: "updatedAt (session ?sc) < generatedAt ?d
          \<and> doc_thoughtCount ?d = int (length (thoughts ?sc))
          \<and> doc_taskCount ?d = int (length (tasks ?sc))"
    by (simp add: exampleDoc_def documentedContext_def exampleSession_def)
  note T = processSession_skips_iff_up_to_date [OF c d, of "exampleConfig 5 3" failingLlm 2000]
  from T f have 1: "processSession (exampleConfig 5 3) failingLlm 2000 (finalizeEvent ''s1'') ?w
      = (Inr (), ?w)" by blast
  from T f have 2: "calls (snd (processSession (exampleConfig 5 3) failingLlm 2000
      (finalizeEvent ''s1'') ?w)) = calls ?w" by auto
  from c d 1 2 show ?thesis by blast
qed














end
